theory Spec2Isabelle
  imports Complex_Main "HOL-Library.Word"
begin

text \<open>
  A shallow embedding of three parts of the melonJS engine: the path builder and tessellator
  (Path2D), the TMX utilities that interpret property values and decode tile-layer data, and
  the Container, whose code is known here through its type declarations and the
  specification only. Definitions come first, the properties after them.
\<close>

section \<open>JavaScript numbers\<close>

text \<open>
  A JavaScript number is a finite value, one of the two infinities, or NaN. Finite values are
  taken as exact reals: rounding, overflow and the sign of zero are outside this model (the
  zero \<open>Num 0\<close> stands for +0). What the model keeps is what decides control flow in the
  code below: division by zero gives an infinity or NaN, NaN compares false with everything
  (itself included), and arithmetic on the special values follows IEEE 754. Where a property
  of the code depends on rounding or on overflow, the operations are parameters instead: see
  \<open>arc_fp\<close>.
\<close>

datatype jsnum = Num real | PosInf | NegInf | NaN

fun strict_eq :: "jsnum \<Rightarrow> jsnum \<Rightarrow> bool" where
  "strict_eq NaN b = False"
| "strict_eq a NaN = False"
| "strict_eq a b = (a = b)"

fun is_finite :: "jsnum \<Rightarrow> bool" where
  "is_finite (Num a) = True"
| "is_finite a = False"

definition inf_of_sign :: "real \<Rightarrow> jsnum" where
  "inf_of_sign s = (if 0 < s then PosInf else if s < 0 then NegInf else NaN)"

fun js_neg :: "jsnum \<Rightarrow> jsnum" where
  "js_neg (Num a) = Num (- a)"
| "js_neg PosInf = NegInf"
| "js_neg NegInf = PosInf"
| "js_neg NaN = NaN"

fun js_add :: "jsnum \<Rightarrow> jsnum \<Rightarrow> jsnum" where
  "js_add NaN b = NaN"
| "js_add a NaN = NaN"
| "js_add PosInf NegInf = NaN"
| "js_add NegInf PosInf = NaN"
| "js_add PosInf b = PosInf"
| "js_add a PosInf = PosInf"
| "js_add NegInf b = NegInf"
| "js_add a NegInf = NegInf"
| "js_add (Num a) (Num b) = Num (a + b)"

definition js_sub :: "jsnum \<Rightarrow> jsnum \<Rightarrow> jsnum" where
  "js_sub a b = js_add a (js_neg b)"

fun js_mul :: "jsnum \<Rightarrow> jsnum \<Rightarrow> jsnum" where
  "js_mul NaN b = NaN"
| "js_mul a NaN = NaN"
| "js_mul PosInf PosInf = PosInf"
| "js_mul PosInf NegInf = NegInf"
| "js_mul NegInf PosInf = NegInf"
| "js_mul NegInf NegInf = PosInf"
| "js_mul PosInf (Num b) = inf_of_sign b"
| "js_mul NegInf (Num b) = inf_of_sign (- b)"
| "js_mul (Num a) PosInf = inf_of_sign a"
| "js_mul (Num a) NegInf = inf_of_sign (- a)"
| "js_mul (Num a) (Num b) = Num (a * b)"

fun js_div :: "jsnum \<Rightarrow> jsnum \<Rightarrow> jsnum" where
  "js_div NaN b = NaN"
| "js_div a NaN = NaN"
| "js_div PosInf PosInf = NaN"
| "js_div PosInf NegInf = NaN"
| "js_div NegInf PosInf = NaN"
| "js_div NegInf NegInf = NaN"
| "js_div PosInf (Num b) = (if 0 \<le> b then PosInf else NegInf)"
| "js_div NegInf (Num b) = (if 0 \<le> b then NegInf else PosInf)"
| "js_div (Num a) PosInf = Num 0"
| "js_div (Num a) NegInf = Num 0"
| "js_div (Num a) (Num b) = (if b = 0 then inf_of_sign a else Num (a / b))"

definition trunc :: "real \<Rightarrow> int" where
  "trunc q = (if 0 \<le> q then \<lfloor>q\<rfloor> else \<lceil>q\<rceil>)"

text \<open>The remainder operator \<^verbatim>\<open>%\<close>: the result has the sign of the dividend.\<close>

fun js_mod :: "jsnum \<Rightarrow> jsnum \<Rightarrow> jsnum" where
  "js_mod (Num a) (Num b) = (if b = 0 then NaN else Num (a - b * of_int (trunc (a / b))))"
| "js_mod (Num a) PosInf = Num a"
| "js_mod (Num a) NegInf = Num a"
| "js_mod a b = NaN"

fun js_lt :: "jsnum \<Rightarrow> jsnum \<Rightarrow> bool" where
  "js_lt NaN b = False"
| "js_lt a NaN = False"
| "js_lt a NegInf = False"
| "js_lt PosInf b = False"
| "js_lt NegInf b = True"
| "js_lt a PosInf = True"
| "js_lt (Num a) (Num b) = (a < b)"

fun js_ge :: "jsnum \<Rightarrow> jsnum \<Rightarrow> bool" where
  "js_ge NaN b = False"
| "js_ge a NaN = False"
| "js_ge a b = (\<not> js_lt a b)"

fun js_abs :: "jsnum \<Rightarrow> jsnum" where
  "js_abs (Num a) = Num \<bar>a\<bar>"
| "js_abs PosInf = PosInf"
| "js_abs NegInf = PosInf"
| "js_abs NaN = NaN"

fun js_cos :: "jsnum \<Rightarrow> jsnum" where
  "js_cos (Num a) = Num (cos a)"
| "js_cos a = NaN"

fun js_sin :: "jsnum \<Rightarrow> jsnum" where
  "js_sin (Num a) = Num (sin a)"
| "js_sin a = NaN"

text \<open>
  Modelled from the spec: the constant \<^verbatim>\<open>TAU\<close> of math/math.js, which is not among the
  sources; the spec's \<open>arc\<close> reduces the angles "modulo a full turn (2\<pi>)".
\<close>

definition TAU :: jsnum where
  "TAU = Num (2 * pi)"

section \<open>Points and the pool\<close>

datatype point = Point (x_of: jsnum) (y_of: jsnum)

text \<open>
  Modelled from the spec: \<^verbatim>\<open>Point.equals\<close> of the Point class, which is not among the
  sources; the spec's \<open>closePath\<close> tests whether two points coincide by "coordinate
  equality". The coordinates are JavaScript numbers, and their equality is \<^verbatim>\<open>===\<close>, under
  which NaN differs from itself.
\<close>

definition equals :: "point \<Rightarrow> point \<Rightarrow> bool" where
  "equals p q = (strict_eq (x_of p) (x_of q) \<and> strict_eq (y_of p) (y_of q))"

text \<open>
  Modelled from the spec: the pool service of system/pooling.js, which is not among the
  sources. The spec gives it as an opaque allocator with \<open>acquire(typeTag, ...ctorArgs)\<close>
  returning an instance and \<open>release(instance)\<close>, a reuse allocator whose released
  instances are handed out again. The model keeps the released instances and counts the
  calls of each kind; a point is a value, so the instance returned by \<open>pull\<close> is the
  point built from the constructor arguments, taken from the released ones when there is one.
\<close>

record pool =
  recycled :: "point list"
  acquired :: nat
  released :: nat

definition pull :: "pool \<Rightarrow> jsnum \<Rightarrow> jsnum \<Rightarrow> point \<times> pool" where
  "pull pl a b = (Point a b, pl\<lparr>recycled := tl (recycled pl), acquired := Suc (acquired pl)\<rparr>)"

definition push :: "pool \<Rightarrow> point \<Rightarrow> pool" where
  "push pl p = pl\<lparr>recycled := p # recycled pl, released := Suc (released pl)\<rparr>"

section \<open>Path2D\<close>

record path2d =
  points :: "point list"
  arcResolution :: jsnum
  vertices :: "point list"

datatype error = Error string | TypeError | InvalidCharacterError

subsection \<open>beginPath, moveTo, lineTo, closePath\<close>

definition beginPath :: "path2d \<times> pool \<Rightarrow> path2d \<times> pool" where
  "beginPath s = (case s of (p, pl) \<Rightarrow> (p\<lparr>points := []\<rparr>, fold (\<lambda>q pl'. push pl' q) (points p) pl))"

definition moveTo :: "path2d \<times> pool \<Rightarrow> jsnum \<Rightarrow> jsnum \<Rightarrow> path2d \<times> pool" where
  "moveTo s a b = (case s of (p, pl) \<Rightarrow>
     (case pull pl a b of (q, pl') \<Rightarrow> (p\<lparr>points := points p @ [q]\<rparr>, pl')))"

definition lineTo :: "path2d \<times> pool \<Rightarrow> jsnum \<Rightarrow> jsnum \<Rightarrow> path2d \<times> pool" where
  "lineTo s a b = (case s of (p, pl) \<Rightarrow>
     (case pull pl a b of (q, pl') \<Rightarrow> (p\<lparr>points := points p @ [q]\<rparr>, pl')))"

definition closePath :: "path2d \<times> pool \<Rightarrow> path2d \<times> pool" where
  "closePath s = (case s of (p, pl) \<Rightarrow>
     (if 1 < length (points p) \<and> \<not> equals (points p ! (length (points p) - 1)) (points p ! 0)
      then (case pull pl (x_of (points p ! 0)) (y_of (points p ! 0)) of
              (q, pl') \<Rightarrow> (p\<lparr>points := points p @ [q]\<rparr>, pl'))
      else (p, pl)))"

subsection \<open>triangulatePath\<close>

text \<open>
  \<^verbatim>\<open>earcut\<close> is the external triangulation library; it is a parameter here, a function
  from the flat coordinate list to the list of triangle vertex indices. The three loops of
  \<^verbatim>\<open>triangulatePath\<close> are the three functions below. A point pulled without constructor
  arguments has both coordinates 0, and the second loop overwrites them. Reading
  \<^verbatim>\<open>points[indices[i]]\<close> out of range gives \<^verbatim>\<open>undefined\<close>, whose \<^verbatim>\<open>.x\<close> raises a
  TypeError.
\<close>

function grow_vertices :: "nat \<Rightarrow> point list \<times> pool \<Rightarrow> point list \<times> pool" where
  "grow_vertices n (vs, pl) =
     (if length vs < n
      then (case pull pl (Num 0) (Num 0) of (q, pl') \<Rightarrow> grow_vertices n (vs @ [q], pl'))
      else (vs, pl))"
  by pat_completeness auto
termination
  by (relation "measure (\<lambda>(n, vs, pl). n - length vs)") (auto simp: pull_def)

declare grow_vertices.simps [simp del]

function calc_vertices :: "point list \<Rightarrow> nat list \<Rightarrow> nat \<Rightarrow> point list \<Rightarrow> error + point list" where
  "calc_vertices pts idx i vs =
     (if i < length idx
      then (if idx ! i < length pts
            then calc_vertices pts idx (Suc i)
                   (vs[i := Point (x_of (pts ! (idx ! i))) (y_of (pts ! (idx ! i)))])
            else Inl TypeError)
      else Inr vs)"
  by pat_completeness auto
termination
  by (relation "measure (\<lambda>(pts, idx, i, vs). length idx - i)") auto

declare calc_vertices.simps [simp del]

function recycle_vertices :: "nat \<Rightarrow> point list \<times> pool \<Rightarrow> point list \<times> pool" where
  "recycle_vertices n (vs, pl) =
     (if n < length vs
      then recycle_vertices n (butlast vs, push pl (vs ! (length vs - 1)))
      else (vs, pl))"
  by pat_completeness auto
termination
  by (relation "measure (\<lambda>(n, vs, pl). length vs - n)") auto

declare recycle_vertices.simps [simp del]

definition flat_coords :: "point list \<Rightarrow> jsnum list" where
  "flat_coords pts = concat (map (\<lambda>p. [x_of p, y_of p]) pts)"

definition triangulatePath ::
  "(jsnum list \<Rightarrow> nat list) \<Rightarrow> path2d \<times> pool \<Rightarrow> error + (path2d \<times> pool)" where
  "triangulatePath earcut s = (case s of (p, pl) \<Rightarrow>
     (let indices = earcut (flat_coords (points p)) in
      case grow_vertices (length indices) (vertices p, pl) of (vs1, pl1) \<Rightarrow>
        (case calc_vertices (points p) indices 0 vs1 of
           Inl e \<Rightarrow> Inl e
         | Inr vs2 \<Rightarrow>
             (case recycle_vertices (length indices) (vs2, pl1) of
                (vs3, pl3) \<Rightarrow> Inr (p\<lparr>vertices := vs3\<rparr>, pl3)))))"

subsection \<open>arc\<close>

text \<open>
  The interpolation loop of \<^verbatim>\<open>arc\<close> compares the counter with
  \<^verbatim>\<open>nr_of_interpolation_points\<close>, which is \<^verbatim>\<open>Infinity\<close> when a positive
  length is divided by a zero \<^verbatim>\<open>arcResolution\<close>: the loop then never ends. The loop is
  therefore a partial function, and \<open>None\<close> is the call that does not return.

  The statements before the loop reassign \<^verbatim>\<open>startAngle\<close>, \<^verbatim>\<open>endAngle\<close> and
  \<^verbatim>\<open>diff\<close>; the values they end with are \<open>arc_startAngle\<close> (the remainder by
  \<^verbatim>\<open>TAU\<close>, plus \<^verbatim>\<open>TAU\<close> if negative), \<open>arc_endAngle\<close> (the same, plus
  \<^verbatim>\<open>TAU\<close> if the start is not below it) and \<open>arc_diff\<close> (their difference, taken
  from \<^verbatim>\<open>TAU\<close> if anticlockwise, and \<^verbatim>\<open>TAU\<close> itself for a full circle, which is
  tested on the angles as they were passed).
\<close>

partial_function (option) arc_loop ::
  "jsnum \<Rightarrow> jsnum \<Rightarrow> jsnum \<Rightarrow> jsnum \<Rightarrow> jsnum \<Rightarrow> jsnum \<Rightarrow> nat \<Rightarrow> jsnum \<Rightarrow> point list \<times> pool
     \<Rightarrow> (point list \<times> pool) option" where
  "arc_loop x y radius direction dangle nr j angle s =
     (if js_lt (Num (real j)) nr
      then (case s of (pts, pl) \<Rightarrow>
              (case pull pl (js_add x (js_mul radius (js_cos angle)))
                            (js_add y (js_mul radius (js_sin angle))) of
                 (q, pl') \<Rightarrow>
                   arc_loop x y radius direction dangle nr (Suc j)
                     (js_add angle (js_mul direction dangle)) (pts @ [q], pl')))
      else Some s)"

definition arc_startAngle :: "jsnum \<Rightarrow> jsnum" where
  "arc_startAngle startAngle =
     (let startAngle1 = js_mod startAngle TAU
      in if js_lt startAngle1 (Num 0) then js_add startAngle1 TAU else startAngle1)"

definition arc_endAngle :: "jsnum \<Rightarrow> jsnum \<Rightarrow> jsnum" where
  "arc_endAngle startAngle endAngle =
     (let endAngle1 = js_mod endAngle TAU;
          endAngle2 = (if js_lt endAngle1 (Num 0) then js_add endAngle1 TAU else endAngle1)
      in if js_ge (arc_startAngle startAngle) endAngle2 then js_add endAngle2 TAU else endAngle2)"

definition arc_diff :: "jsnum \<Rightarrow> jsnum \<Rightarrow> bool \<Rightarrow> jsnum" where
  "arc_diff startAngle endAngle anticlockwise =
     (let fullCircle = (if anticlockwise then js_ge (js_abs (js_sub startAngle endAngle)) TAU
                        else js_ge (js_abs (js_sub endAngle startAngle)) TAU);
          diff = js_sub (arc_endAngle startAngle endAngle) (arc_startAngle startAngle);
          diff1 = (if anticlockwise then js_sub TAU diff else diff)
      in if fullCircle then TAU else diff1)"

definition arc ::
  "path2d \<times> pool \<Rightarrow> jsnum \<Rightarrow> jsnum \<Rightarrow> jsnum \<Rightarrow> jsnum \<Rightarrow> jsnum \<Rightarrow> bool \<Rightarrow> (path2d \<times> pool) option" where
  "arc s x y radius startAngle endAngle anticlockwise = (case s of (p, pl) \<Rightarrow>
     (if strict_eq startAngle endAngle then Some (p, pl)
      else
        (let diff = arc_diff startAngle endAngle anticlockwise;
             direction = (if anticlockwise then Num (- 1) else Num 1);
             len = js_mul diff radius;
             nr_of_interpolation_points = js_div len (arcResolution p);
             dangle = js_div diff nr_of_interpolation_points
         in case arc_loop x y radius direction dangle nr_of_interpolation_points 0
                   (arc_startAngle startAngle) (points p, pl) of
              None \<Rightarrow> None
            | Some (pts, pl') \<Rightarrow>
                (case pull pl' (js_add x (js_mul radius (js_cos (arc_endAngle startAngle endAngle))))
                               (js_add y (js_mul radius (js_sin (arc_endAngle startAngle endAngle)))) of
                   (q, pl'') \<Rightarrow> Some (p\<lparr>points := pts @ [q]\<rparr>, pl'')))))"

subsection \<open>arc, with the arithmetic of the platform as a parameter\<close>

text \<open>
  The numbers of the code are doubles. A double is a real number or one of the special
  values, and on doubles the comparisons, \<^verbatim>\<open>===\<close> and \<^verbatim>\<open>Math.abs\<close> are exact; a sum, a
  difference, a product, a quotient, a remainder, a cosine and a sine are rounded and can
  overflow to an infinity. In \<open>arc_fp\<close> these seven operations and the double
  \<^verbatim>\<open>TAU\<close> are parameters, a record \<open>fp\<close>, and nothing is assumed of them: what is
  proved of \<open>arc_fp\<close> holds whatever the rounding and the overflow. The loop counter
  \<^verbatim>\<open>j\<close> is a number as well, and \<^verbatim>\<open>j++\<close> adds 1 to it with the addition of the
  platform. Statement for statement \<open>arc_fp\<close> is \<open>arc\<close>, which it equals at the exact
  arithmetic \<open>exact_arith\<close>.
\<close>

record arith =
  fadd :: "jsnum \<Rightarrow> jsnum \<Rightarrow> jsnum"
  fsub :: "jsnum \<Rightarrow> jsnum \<Rightarrow> jsnum"
  fmul :: "jsnum \<Rightarrow> jsnum \<Rightarrow> jsnum"
  fdiv :: "jsnum \<Rightarrow> jsnum \<Rightarrow> jsnum"
  frem :: "jsnum \<Rightarrow> jsnum \<Rightarrow> jsnum"
  fcos :: "jsnum \<Rightarrow> jsnum"
  fsin :: "jsnum \<Rightarrow> jsnum"
  ftau :: jsnum

partial_function (option) arc_fp_loop ::
  "arith \<Rightarrow> jsnum \<Rightarrow> jsnum \<Rightarrow> jsnum \<Rightarrow> jsnum \<Rightarrow> jsnum \<Rightarrow> jsnum \<Rightarrow> jsnum \<Rightarrow> jsnum \<Rightarrow> point list \<times> pool
     \<Rightarrow> (point list \<times> pool) option" where
  "arc_fp_loop fp x y radius direction dangle nr j angle s =
     (if js_lt j nr
      then (case s of (pts, pl) \<Rightarrow>
              (case pull pl (fadd fp x (fmul fp radius (fcos fp angle)))
                            (fadd fp y (fmul fp radius (fsin fp angle))) of
                 (q, pl') \<Rightarrow>
                   arc_fp_loop fp x y radius direction dangle nr (fadd fp j (Num 1))
                     (fadd fp angle (fmul fp direction dangle)) (pts @ [q], pl')))
      else Some s)"

definition arc_fp_startAngle :: "arith \<Rightarrow> jsnum \<Rightarrow> jsnum" where
  "arc_fp_startAngle fp startAngle =
     (let startAngle1 = frem fp startAngle (ftau fp)
      in if js_lt startAngle1 (Num 0) then fadd fp startAngle1 (ftau fp) else startAngle1)"

definition arc_fp_endAngle :: "arith \<Rightarrow> jsnum \<Rightarrow> jsnum \<Rightarrow> jsnum" where
  "arc_fp_endAngle fp startAngle endAngle =
     (let endAngle1 = frem fp endAngle (ftau fp);
          endAngle2 = (if js_lt endAngle1 (Num 0) then fadd fp endAngle1 (ftau fp) else endAngle1)
      in if js_ge (arc_fp_startAngle fp startAngle) endAngle2 then fadd fp endAngle2 (ftau fp)
         else endAngle2)"

definition arc_fp_diff :: "arith \<Rightarrow> jsnum \<Rightarrow> jsnum \<Rightarrow> bool \<Rightarrow> jsnum" where
  "arc_fp_diff fp startAngle endAngle anticlockwise =
     (let fullCircle = (if anticlockwise then js_ge (js_abs (fsub fp startAngle endAngle)) (ftau fp)
                        else js_ge (js_abs (fsub fp endAngle startAngle)) (ftau fp));
          diff = fsub fp (arc_fp_endAngle fp startAngle endAngle) (arc_fp_startAngle fp startAngle);
          diff1 = (if anticlockwise then fsub fp (ftau fp) diff else diff)
      in if fullCircle then ftau fp else diff1)"

definition arc_fp ::
  "arith \<Rightarrow> path2d \<times> pool \<Rightarrow> jsnum \<Rightarrow> jsnum \<Rightarrow> jsnum \<Rightarrow> jsnum \<Rightarrow> jsnum \<Rightarrow> bool
     \<Rightarrow> (path2d \<times> pool) option" where
  "arc_fp fp s x y radius startAngle endAngle anticlockwise = (case s of (p, pl) \<Rightarrow>
     (if strict_eq startAngle endAngle then Some (p, pl)
      else
        (let diff = arc_fp_diff fp startAngle endAngle anticlockwise;
             direction = (if anticlockwise then Num (- 1) else Num 1);
             len = fmul fp diff radius;
             nr_of_interpolation_points = fdiv fp len (arcResolution p);
             dangle = fdiv fp diff nr_of_interpolation_points
         in case arc_fp_loop fp x y radius direction dangle nr_of_interpolation_points (Num 0)
                   (arc_fp_startAngle fp startAngle) (points p, pl) of
              None \<Rightarrow> None
            | Some (pts, pl') \<Rightarrow>
                (case pull pl' (fadd fp x (fmul fp radius (fcos fp (arc_fp_endAngle fp startAngle endAngle))))
                               (fadd fp y (fmul fp radius (fsin fp (arc_fp_endAngle fp startAngle endAngle)))) of
                   (q, pl'') \<Rightarrow> Some (p\<lparr>points := pts @ [q]\<rparr>, pl'')))))"

definition exact_arith :: arith where
  "exact_arith = \<lparr>fadd = js_add, fsub = js_sub, fmul = js_mul, fdiv = js_div, frem = js_mod,
                   fcos = js_cos, fsin = js_sin, ftau = TAU\<rparr>"

text \<open>The value that \<^verbatim>\<open>nr_of_interpolation_points\<close> takes in a call.\<close>

definition arc_fp_count :: "arith \<Rightarrow> path2d \<Rightarrow> jsnum \<Rightarrow> jsnum \<Rightarrow> jsnum \<Rightarrow> bool \<Rightarrow> jsnum" where
  "arc_fp_count fp p radius startAngle endAngle anticlockwise =
     fdiv fp (fmul fp (arc_fp_diff fp startAngle endAngle anticlockwise) radius) (arcResolution p)"

text \<open>
  The number of times the loop is entered when the counter takes the values 0, 1, 2, ...:
  none for a count that is NaN or not positive.
\<close>

definition iterations :: "jsnum \<Rightarrow> nat" where
  "iterations nr = (case nr of Num n \<Rightarrow> nat \<lceil>n\<rceil> | _ \<Rightarrow> 0)"

text \<open>
  Two properties of the platform's addition that decide whether the loop ends. Adding 1 to a
  whole number below \<open>N\<close> gives the next whole number: double addition does, for \<open>N\<close> up
  to \<open>2 ^ 53\<close>. Adding 1 to a finite number gives a finite number: double addition does.
\<close>

definition exact_counter :: "arith \<Rightarrow> nat \<Rightarrow> bool" where
  "exact_counter fp N = (\<forall>k < N. fadd fp (Num (real k)) (Num 1) = Num (real (Suc k)))"

definition finite_increments :: "arith \<Rightarrow> bool" where
  "finite_increments fp = (\<forall>a. is_finite (fadd fp (Num a) (Num 1)))"

text \<open>
  An arithmetic that overflows, to run \<open>arc_fp\<close> on: a product or a quotient of magnitude
  \<open>2 ^ 1024\<close> or more is an infinity, as it is in doubles; rounding is still left out.
\<close>

definition overflowing :: "real \<Rightarrow> jsnum" where
  "overflowing r = (if 2 ^ 1024 \<le> \<bar>r\<bar> then inf_of_sign r else Num r)"

definition overflow_arith :: arith where
  "overflow_arith =
     exact_arith\<lparr>fmul := (\<lambda>a b. case js_mul a b of Num r \<Rightarrow> overflowing r | v \<Rightarrow> v),
                 fdiv := (\<lambda>a b. case js_div a b of Num r \<Rightarrow> overflowing r | v \<Rightarrow> v)\<rparr>"

section \<open>TMX utilities\<close>

subsection \<open>Values and the platform\<close>

text \<open>
  A string is a list of 8-bit characters here. The code tests and cuts strings at ASCII
  characters only (letters, digits, punctuation, white space), which read the same in the
  UTF-16 strings of JavaScript.
\<close>

datatype jsval =
    JUndefined
  | JNull
  | JBool bool
  | JNumber jsnum
  | JString string
  | JArray "jsval list"
  | JObject "(string \<times> jsval) list"

text \<open>
  What the code takes from the JavaScript engine and from utils/string.js is a parameter:
  \<^verbatim>\<open>Number(s)\<close> (also the unary plus) on a string, \<^verbatim>\<open>isBoolean\<close>,
  \<^verbatim>\<open>isNumeric\<close>, \<^verbatim>\<open>JSON.parse\<close>, and the evaluation of an expression by
  \<^verbatim>\<open>Function("'use strict';return (" + e + ")")()\<close>. For the last two \<open>None\<close> is
  a thrown exception.
\<close>

record platform =
  toNumber :: "string \<Rightarrow> jsnum"
  isBoolean :: "string \<Rightarrow> bool"
  isNumeric :: "string \<Rightarrow> bool"
  JSON_parse :: "string \<Rightarrow> jsval option"
  evaluate :: "string \<Rightarrow> jsval option"

subsection \<open>setTMXValue\<close>

definition lower_ascii :: "char \<Rightarrow> char" where
  "lower_ascii c = (let n = (of_char c :: nat) in if 65 \<le> n \<and> n \<le> 90 then char_of (n + 32) else c)"

text \<open>\<^verbatim>\<open>value.search(/^json:/i) === 0\<close>: the value starts with the prefix, whatever the case.\<close>

definition starts_with_ci :: "string \<Rightarrow> string \<Rightarrow> bool" where
  "starts_with_ci prefix v = (map lower_ascii (take (length prefix) v) = prefix)"

definition is_hex :: "char \<Rightarrow> bool" where
  "is_hex c = (let n = (of_char c :: nat) in
     (48 \<le> n \<and> n \<le> 57) \<or> (97 \<le> n \<and> n \<le> 102) \<or> (65 \<le> n \<and> n \<le> 70))"

text \<open>
  The two colour patterns \<^verbatim>\<open>/^#([\da-fA-F])([\da-fA-F]{3})$/\<close> and
  \<^verbatim>\<open>/^#([\da-fA-F]{2})([\da-fA-F]{6})$/\<close>, with the result \<^verbatim>\<open>"#" + match[2] + match[1]\<close>.
\<close>

definition match_color :: "string \<Rightarrow> string option" where
  "match_color v =
     (if length v = 5 \<and> hd v = CHR ''#'' \<and> list_all is_hex (tl v)
      then Some (CHR ''#'' # drop 2 v @ take 1 (tl v))
      else if length v = 9 \<and> hd v = CHR ''#'' \<and> list_all is_hex (tl v)
      then Some (CHR ''#'' # drop 3 v @ take 2 (tl v))
      else None)"

definition setTMXValue :: "platform \<Rightarrow> string \<Rightarrow> jsval \<Rightarrow> jsval \<Rightarrow> error + jsval" where
  "setTMXValue pf name type v =
     (case v of
        JString value \<Rightarrow>
          (if type = JString ''int'' \<or> type = JString ''float''
           then Inr (JNumber (toNumber pf value))
           else if type = JString ''bool''
           then Inr (JBool (value = ''true''))
           else
             (case
                (if value = [] \<or> isBoolean pf value
                 then Inr (JBool (if value \<noteq> [] then value = ''true'' else True))
                 else if isNumeric pf value
                 then Inr (JNumber (toNumber pf value))
                 else if starts_with_ci ''json:'' value
                 then (case JSON_parse pf (drop 5 value) of
                         None \<Rightarrow> Inl (Error (''Unable to parse JSON: '' @ drop 5 value))
                       | Some r \<Rightarrow> Inr r)
                 else if starts_with_ci ''eval:'' value
                 then (case evaluate pf (drop 5 value) of
                         None \<Rightarrow> Inl (Error (''Unable to evaluate: '' @ drop 5 value))
                       | Some r \<Rightarrow> Inr r)
                 else (case match_color value of
                         Some c \<Rightarrow> Inr (JString c)
                       | None \<Rightarrow> Inr (JString value)))
              of
                Inl e \<Rightarrow> Inl e
              | Inr value' \<Rightarrow>
                  (if name = ''ratio'' \<or> name = ''anchorPoint''
                   then (case value' of
                           JNumber n \<Rightarrow> Inr (JObject [(''x'', JNumber n), (''y'', JNumber n)])
                         | _ \<Rightarrow> Inr value')
                   else Inr value')))
      | _ \<Rightarrow> Inr v)"

subsection \<open>decodeCSV\<close>

definition is_space :: "char \<Rightarrow> bool" where
  "is_space c = (of_char c \<in> {9, 10, 11, 12, 13, 32, 160 :: nat})"

definition trim :: "string \<Rightarrow> string" where
  "trim s = rev (dropWhile is_space (rev (dropWhile is_space s)))"

fun split_on :: "char \<Rightarrow> string \<Rightarrow> string list" where
  "split_on c [] = [[]]"
| "split_on c (x # xs) =
     (if x = c then [] # split_on c xs
      else (case split_on c xs of w # ws \<Rightarrow> (x # w) # ws | [] \<Rightarrow> [[x]]))"

text \<open>\<^verbatim>\<open>input.replace("\n", "")\<close> removes the first line feed only.\<close>

definition decodeCSV :: "platform \<Rightarrow> string \<Rightarrow> jsnum list" where
  "decodeCSV pf input = map (toNumber pf) (split_on CHR '','' (trim (remove1 (CHR 0x0A) input)))"

subsection \<open>decodeBase64AsArray\<close>

text \<open>
  \<^verbatim>\<open>globalThis.atob\<close> is the platform's base64 decoder; it is written out here after
  the forgiving-base64 decoding of the HTML standard: ASCII whitespace is dropped, up to two
  padding characters are removed from an input whose length is a multiple of four, an input
  of length 1 modulo 4 or with a character outside the alphabet raises an
  InvalidCharacterError, and the bits left over after the last whole byte are discarded. The
  result is a binary string, one character per byte.
\<close>

definition b64_index :: "char \<Rightarrow> nat option" where
  "b64_index c = (let n = (of_char c :: nat) in
     if 65 \<le> n \<and> n \<le> 90 then Some (n - 65)
     else if 97 \<le> n \<and> n \<le> 122 then Some (n - 71)
     else if 48 \<le> n \<and> n \<le> 57 then Some (n + 4)
     else if n = 43 then Some 62
     else if n = 47 then Some 63
     else None)"

fun b64_bytes :: "nat list \<Rightarrow> nat list" where
  "b64_bytes (a # b # c # d # rest) =
     (a * 4 + b div 16) # ((b mod 16) * 16 + c div 4) # ((c mod 4) * 64 + d) # b64_bytes rest"
| "b64_bytes [a, b, c] = [a * 4 + b div 16, (b mod 16) * 16 + c div 4]"
| "b64_bytes [a, b] = [a * 4 + b div 16]"
| "b64_bytes rest = []"

definition strip_padding :: "string \<Rightarrow> string" where
  "strip_padding s =
     (if length s mod 4 = 0 \<and> s \<noteq> [] \<and> last s = CHR ''=''
      then (if butlast s \<noteq> [] \<and> last (butlast s) = CHR ''='' then butlast (butlast s) else butlast s)
      else s)"

definition atob :: "string \<Rightarrow> error + string" where
  "atob input =
     (let s = strip_padding (filter (\<lambda>c. of_char c \<notin> {9, 10, 12, 13, 32 :: nat}) input)
      in if length s mod 4 = 1 then Inl InvalidCharacterError
         else (case those (map b64_index s) of
                 None \<Rightarrow> Inl InvalidCharacterError
               | Some sextets \<Rightarrow> Inr (map char_of (b64_bytes sextets))))"

text \<open>\<^verbatim>\<open>dec.charCodeAt(k)\<close> as an operand of \<^verbatim>\<open><<\<close>: NaN, out of range, converts to 0.\<close>

definition charCodeAt :: "string \<Rightarrow> nat \<Rightarrow> 32 word" where
  "charCodeAt dec k = (if k < length dec then of_nat (of_char (dec ! k)) else 0)"

text \<open>
  The inner loop, \<^verbatim>\<open>for (j = bytes - 1; j >= 0; --j)\<close>: the equation for \<open>Suc j\<close> is
  the iteration with loop variable \<open>j\<close>. A shift count is taken modulo 32, and the sum is
  stored in a Uint32Array element, that is modulo \<open>2 ^ 32\<close>.
\<close>

fun add_bytes :: "string \<Rightarrow> nat \<Rightarrow> nat \<Rightarrow> nat \<Rightarrow> 32 word \<Rightarrow> 32 word" where
  "add_bytes dec bytes i 0 w = w"
| "add_bytes dec bytes i (Suc j) w =
     add_bytes dec bytes i j (w + push_bit ((8 * j) mod 32) (charCodeAt dec (i * bytes + j)))"

text \<open>
  The outer loop runs while \<^verbatim>\<open>i < dec.length / bytes\<close>, a quotient that need not be whole;
  a write beyond the end of the typed array is ignored. The array itself,
  \<^verbatim>\<open>new Uint32Array(dec.length / bytes)\<close>, has the whole part of the quotient as its length.
\<close>

function fill_array :: "string \<Rightarrow> nat \<Rightarrow> nat \<Rightarrow> 32 word list \<Rightarrow> 32 word list" where
  "fill_array dec bytes i ar =
     (if 0 < bytes \<and> i * bytes < length dec
      then fill_array dec bytes (Suc i)
             (if i < length ar then ar[i := add_bytes dec bytes i bytes 0] else ar)
      else ar)"
  by pat_completeness auto
termination
  by (relation "measure (\<lambda>(dec, bytes, i, ar). length dec - i * bytes)") auto

declare fill_array.simps [simp del]

definition is_b64_char :: "char \<Rightarrow> bool" where
  "is_b64_char c = (case b64_index c of Some n \<Rightarrow> True | None \<Rightarrow> c = CHR ''='')"

definition decodeBase64AsArray :: "string \<Rightarrow> nat \<Rightarrow> error + 32 word list" where
  "decodeBase64AsArray input bytes0 =
     (let bytes = (if bytes0 = 0 then 1 else bytes0)
      in case atob (filter is_b64_char input) of
           Inl e \<Rightarrow> Inl e
         | Inr dec \<Rightarrow> Inr (fill_array dec bytes 0 (replicate (length dec div bytes) 0)))"

subsection \<open>decode\<close>

datatype decoded = Numbers "jsnum list" | Words "32 word list" | Raw "string option"

text \<open>\<^verbatim>\<open>v || d\<close> on an attribute that is a string or \<^verbatim>\<open>undefined\<close>.\<close>

definition or_default :: "string option \<Rightarrow> string \<Rightarrow> string" where
  "or_default v d = (case v of None \<Rightarrow> d | Some s \<Rightarrow> if s = [] then d else s)"

definition decompress :: "error + decoded" where
  "decompress = Inl (Error ''GZIP/ZLIB compressed TMX Tile Map not supported!'')"

definition decode ::
  "platform \<Rightarrow> string option \<Rightarrow> string option \<Rightarrow> string option \<Rightarrow> error + decoded" where
  "decode pf data encoding0 compression0 =
     (let compression = or_default compression0 ''none'';
          encoding = or_default encoding0 ''none''
      in if encoding = ''csv''
         then (case data of None \<Rightarrow> Inl TypeError | Some d \<Rightarrow> Inr (Numbers (decodeCSV pf d)))
         else if encoding = ''base64''
         then (case data of
                 None \<Rightarrow> Inl TypeError
               | Some d \<Rightarrow>
                   (case decodeBase64AsArray d 4 of
                      Inl e \<Rightarrow> Inl e
                    | Inr decoded \<Rightarrow> if compression = ''none'' then Inr (Words decoded) else decompress))
         else if encoding = ''none''
         then Inr (Raw data)
         else if encoding = ''xml''
         then Inl (Error ''XML encoding is deprecated, use base64 instead'')
         else Inl (Error (''Unknown layer encoding: '' @ encoding)))"

subsection \<open>normalize, the case of a data node\<close>

text \<open>
  \<^verbatim>\<open>parse(item)\<close> of a \<^verbatim>\<open>data\<close> element is a record of its attributes, which are strings
  or absent, of its text, and of the \<^verbatim>\<open>chunk\<close> children that \<^verbatim>\<open>normalize\<close> collected in
  \<^verbatim>\<open>chunks\<close>; \<open>None\<close> is \<^verbatim>\<open>undefined\<close>. The object \<^verbatim>\<open>obj\<close> is the layer being built.
\<close>

record chunk_node =
  chunk_x :: "string option"
  chunk_y :: "string option"
  chunk_width :: "string option"
  chunk_height :: "string option"
  chunk_text :: "string option"

record data_node =
  data_encoding :: "string option"
  data_compression :: "string option"
  data_chunks :: "chunk_node list option"
  data_text :: "string option"

record layer_chunk =
  lc_x :: jsnum
  lc_y :: jsnum
  lc_width :: jsnum
  lc_height :: jsnum
  lc_data :: decoded

record layer_obj =
  obj_chunks :: "layer_chunk list option"
  obj_data :: "decoded option"
  obj_encoding :: "string option"

definition unary_plus :: "platform \<Rightarrow> string option \<Rightarrow> jsnum" where
  "unary_plus pf v = (case v of None \<Rightarrow> NaN | Some s \<Rightarrow> toNumber pf s)"

text \<open>The \<^verbatim>\<open>forEach\<close> over \<^verbatim>\<open>data.chunks\<close>; an exception of \<^verbatim>\<open>decode\<close> ends it.\<close>

fun push_chunks ::
  "platform \<Rightarrow> string option \<Rightarrow> string option \<Rightarrow> chunk_node list \<Rightarrow> layer_chunk list
     \<Rightarrow> error + layer_chunk list" where
  "push_chunks pf encoding compression [] acc = Inr acc"
| "push_chunks pf encoding compression (chunk # rest) acc =
     (case decode pf (chunk_text chunk) encoding compression of
        Inl e \<Rightarrow> Inl e
      | Inr d \<Rightarrow>
          push_chunks pf encoding compression rest
            (acc @ [\<lparr>lc_x = unary_plus pf (chunk_x chunk), lc_y = unary_plus pf (chunk_y chunk),
                     lc_width = unary_plus pf (chunk_width chunk),
                     lc_height = unary_plus pf (chunk_height chunk), lc_data = d\<rparr>]))"

definition normalize_data :: "platform \<Rightarrow> layer_obj \<Rightarrow> data_node \<Rightarrow> error + layer_obj" where
  "normalize_data pf obj parsed =
     (let data = parsed\<lparr>data_encoding := Some (or_default (data_encoding parsed) ''xml'')\<rparr>
      in case (case data_chunks data of
                 Some chunks \<Rightarrow>
                   (case push_chunks pf (data_encoding data) (data_compression data) chunks
                           (case obj_chunks obj of None \<Rightarrow> [] | Some cs \<Rightarrow> cs) of
                      Inl e \<Rightarrow> Inl e
                    | Inr cs \<Rightarrow> Inr (obj\<lparr>obj_chunks := Some cs, obj_encoding := Some ''none''\<rparr>))
               | None \<Rightarrow> Inr obj) of
           Inl e \<Rightarrow> Inl e
         | Inr obj1 \<Rightarrow>
             (if data_text data \<noteq> None \<and> obj_chunks obj1 = None
              then (case decode pf (data_text data) (data_encoding data) (data_compression data) of
                      Inl e \<Rightarrow> Inl e
                    | Inr d \<Rightarrow> Inr (obj1\<lparr>obj_data := Some d, obj_encoding := Some ''none''\<rparr>))
              else Inr obj1))"

section \<open>Container\<close>

text \<open>
  Modelled from the spec: the Container of renderable/container.js, of which only the type
  declarations (container.d.ts) are among the sources. The spec gives a Container as a
  sequence of Renderable references and is itself a Renderable; here every Renderable has an
  identifier, and \<open>children w c\<close> is the child sequence of \<open>c\<close> (empty for one that holds
  nothing). From the spec's contracts:
  \<^item> \<open>addChild(child)\<close>: "if child already belongs to another Container, remove it from
    there first (ownership transfer)", then "insert into the sequence"; it "fails with an
    InvalidOperation condition if the child is the Container itself (no self-containment) or
    if the child is already the current root and the Container being added to is a
    descendant";
  \<^item> \<open>removeChild(child, keepalive)\<close>: "schedules the actual unlink for after the current
    update/draw pass completes";
  \<^item> \<open>removeChildNow(child, keepalive)\<close>: "immediate, unconditional unlink"; "if keepalive
    is false, the child's destroy hook runs once unlinked";
  \<^item> the safe point between two passes, where the pending removals are carried out.
  The z-order, the pending sort (a reordering of one sequence) and the callbacks do not
  change which sequence holds which child and are left out.
\<close>

type_synonym rid = nat

record world =
  children :: "rid \<Rightarrow> rid list"
  root :: rid
  pending :: "(rid \<times> rid \<times> bool) list"
  destroyed :: "rid list"

datatype container_error = InvalidOperation

text \<open>\<open>descendant ch a d\<close>: \<open>d\<close> is below \<open>a\<close> in the tree of the child sequences \<open>ch\<close>.\<close>

inductive descendant :: "(rid \<Rightarrow> rid list) \<Rightarrow> rid \<Rightarrow> rid \<Rightarrow> bool" where
  child: "d \<in> set (ch a) \<Longrightarrow> descendant ch a d"
| below: "k \<in> set (ch a) \<Longrightarrow> descendant ch k d \<Longrightarrow> descendant ch a d"

code_pred descendant .

text \<open>
  Modelled from the spec: \<open>addChild\<close>, with the two failures first, then the removal of the
  child from every other sequence and its insertion at the end of this one.
\<close>

definition addChild :: "world \<Rightarrow> rid \<Rightarrow> rid \<Rightarrow> container_error + world" where
  "addChild w c child =
     (if child = c \<or> (child = root w \<and> descendant (children w) child c)
      then Inl InvalidOperation
      else Inr (w\<lparr>children := (\<lambda>k. if k = c then children w c @ [child]
                                     else removeAll child (children w k))\<rparr>))"

text \<open>
  Modelled from the spec: \<open>removeChildNow\<close>, the immediate unlink; the destroy hook is
  recorded in \<open>destroyed\<close>.
\<close>

definition removeChildNow :: "world \<Rightarrow> rid \<Rightarrow> rid \<Rightarrow> bool \<Rightarrow> world" where
  "removeChildNow w c child keepalive =
     w\<lparr>children := (children w)(c := removeAll child (children w c)),
       destroyed := (if keepalive then destroyed w else destroyed w @ [child])\<rparr>"

text \<open>Modelled from the spec: \<open>removeChild\<close>, which only schedules the unlink.\<close>

definition removeChild :: "world \<Rightarrow> rid \<Rightarrow> rid \<Rightarrow> bool \<Rightarrow> world" where
  "removeChild w c child keepalive = w\<lparr>pending := pending w @ [(c, child, keepalive)]\<rparr>"

text \<open>
  Modelled from the spec: the safe point after a pass, where the scheduled unlinks are
  carried out in the order of their scheduling.
\<close>

definition end_of_pass :: "world \<Rightarrow> world" where
  "end_of_pass w =
     (fold (\<lambda>(c, child, keepalive) w'. removeChildNow w' c child keepalive) (pending w) w)
       \<lparr>pending := []\<rparr>"

datatype container_op =
    AddChild rid rid
  | RemoveChild rid rid bool
  | RemoveChildNow rid rid bool
  | EndOfPass

text \<open>One operation; a failed \<open>addChild\<close> throws and leaves the scene graph as it was.\<close>

fun apply_op :: "world \<Rightarrow> container_op \<Rightarrow> world" where
  "apply_op w (AddChild c child) = (case addChild w c child of Inl e \<Rightarrow> w | Inr w' \<Rightarrow> w')"
| "apply_op w (RemoveChild c child keepalive) = removeChild w c child keepalive"
| "apply_op w (RemoveChildNow c child keepalive) = removeChildNow w c child keepalive"
| "apply_op w EndOfPass = end_of_pass w"

definition run :: "world \<Rightarrow> container_op list \<Rightarrow> world" where
  "run w ops = fold (\<lambda>op w'. apply_op w' op) ops w"

text \<open>No Renderable is in the child sequences of two different Containers.\<close>

definition single_owner :: "world \<Rightarrow> bool" where
  "single_owner w =
     (\<forall>c1 c2 r. r \<in> set (children w c1) \<and> r \<in> set (children w c2) \<longrightarrow> c1 = c2)"

definition empty_world :: world where
  "empty_world = \<lparr>children = (\<lambda>c. []), root = 0, pending = [], destroyed = []\<rparr>"

section \<open>Predicates and example values\<close>

definition has_NaN :: "point \<Rightarrow> bool" where
  "has_NaN q = (x_of q = NaN \<or> y_of q = NaN)"

definition pool0 :: pool where
  "pool0 = \<lparr>recycled = [], acquired = 0, released = 0\<rparr>"

definition triangle_path :: path2d where
  "triangle_path =
     \<lparr>points = [Point (Num 0) (Num 0), Point (Num 10) (Num 0), Point (Num 10) (Num 10)],
      arcResolution = Num 5, vertices = []\<rparr>"


text \<open>
  A platform to run the TMX utilities on. It reads an unsigned decimal integer as a
  JavaScript engine does; on any other non-blank string its \<open>Number\<close> gives NaN and its
  parser and evaluator throw, so it stands for an engine only on the inputs used below.
\<close>

definition digit_of :: "char \<Rightarrow> nat option" where
  "digit_of c = (let n = (of_char c :: nat) in if 48 \<le> n \<and> n \<le> 57 then Some (n - 48) else None)"

definition decimal :: "string \<Rightarrow> nat option" where
  "decimal s = (if s = [] then None
                else map_option (foldl (\<lambda>a d. 10 * a + d) 0) (those (map digit_of s)))"

definition example_platform :: platform where
  "example_platform =
     \<lparr>toNumber = (\<lambda>s. case decimal (trim s) of
                         Some n \<Rightarrow> Num (real n)
                       | None \<Rightarrow> if trim s = [] then Num 0 else NaN),
      isBoolean = (\<lambda>s. trim s = ''true'' \<or> trim s = ''false''),
      isNumeric = (\<lambda>s. case decimal (trim s) of Some n \<Rightarrow> True | None \<Rightarrow> False),
      JSON_parse = (\<lambda>s. map_option (\<lambda>n. JNumber (Num (real n))) (decimal s)),
      evaluate = (\<lambda>s. map_option (\<lambda>n. JNumber (Num (real n))) (decimal s))\<rparr>"

definition example_chunk :: chunk_node where
  "example_chunk =
     \<lparr>chunk_x = Some ''0'', chunk_y = Some ''0'', chunk_width = Some ''2'',
      chunk_height = Some ''1'', chunk_text = Some ''AQAAAAIAAAA=''\<rparr>"

definition example_data :: data_node where
  "example_data =
     \<lparr>data_encoding = Some ''base64'', data_compression = None,
      data_chunks = Some [example_chunk], data_text = Some ''AQAAAAIAAAA=''\<rparr>"

definition empty_layer :: layer_obj where
  "empty_layer = \<lparr>obj_chunks = None, obj_data = None, obj_encoding = None\<rparr>"

section \<open>Properties of the path builder\<close>

subsection \<open>The loops of triangulatePath\<close>

lemma grow_vertices_length:
  "length (fst (grow_vertices n (vs, pl))) = max n (length vs)"
proof (induction n "(vs, pl)" arbitrary: vs pl rule: grow_vertices.induct)
  case (1 n vs pl)
  show ?case
  proof (cases "length vs < n")
    case True
    obtain q pl' where q: "pull pl (Num 0) (Num 0) = (q, pl')" by (cases "pull pl (Num 0) (Num 0)")
    from 1[OF True q[symmetric]] True q show ?thesis by (simp add: grow_vertices.simps[of n vs pl])
  next
    case False
    then show ?thesis by (simp add: grow_vertices.simps[of n vs pl])
  qed
qed







text \<open>
  The output vertices are copies of the path points that the indices name, in the order of
  the indices.
\<close>

lemma calc_vertices_nth:
  assumes "calc_vertices pts idx i vs = Inr vs'" and "length idx \<le> length vs" and "k < length vs"
  shows "vs' ! k = (if i \<le> k \<and> k < length idx then pts ! (idx ! k) else vs ! k)"
  using assms
proof (induction pts idx i vs rule: calc_vertices.induct)
  case (1 pts idx i vs)
  show ?case
  proof (cases "i < length idx")
    case True
    show ?thesis
    proof (cases "idx ! i < length pts")
      case r: True
      let ?vs = "vs[i := Point (x_of (pts ! (idx ! i))) (y_of (pts ! (idx ! i)))]"
      from 1(2) True r have c: "calc_vertices pts idx (Suc i) ?vs = Inr vs'"
        by (simp add: calc_vertices.simps[of pts idx i vs])
      from 1(1)[OF True r c] 1(3) 1(4)
      have ih: "vs' ! k = (if Suc i \<le> k \<and> k < length idx then pts ! (idx ! k) else ?vs ! k)"
        by simp
      show ?thesis
      proof (cases "k = i")
        case True
        with ih 1(4) \<open>i < length idx\<close> show ?thesis by simp
      next
        case False
        with ih show ?thesis by (auto simp: Suc_le_eq)
      qed
    next
      case False
      with 1(2) True show ?thesis by (simp add: calc_vertices.simps[of pts idx i vs])
    qed
  next
    case False
    with 1(2) have "vs' = vs" by (simp add: calc_vertices.simps[of pts idx i vs])
    with False show ?thesis by auto
  qed
qed

lemma recycle_vertices_take:
  "fst (recycle_vertices n (vs, pl)) = take n vs"
proof (induction n "(vs, pl)" arbitrary: vs pl rule: recycle_vertices.induct)
  case (1 n vs pl)
  show ?case
  proof (cases "n < length vs")
    case True
    then have "n \<le> length vs - 1" by simp
    with 1[OF True] True show ?thesis
      by (simp add: recycle_vertices.simps[of n vs pl] butlast_conv_take min_def)
  next
    case False
    then show ?thesis by (simp add: recycle_vertices.simps[of n vs pl])
  qed
qed

lemma calc_vertices_length:
  "calc_vertices pts idx i vs = Inr vs' \<Longrightarrow> length vs' = length vs"
proof (induction pts idx i vs rule: calc_vertices.induct)
  case (1 pts idx i vs)
  show ?case
  proof (cases "i < length idx")
    case True
    show ?thesis
    proof (cases "idx ! i < length pts")
      case r: True
      from 1(2) True r
      have "calc_vertices pts idx (Suc i) (vs[i := Point (x_of (pts ! (idx ! i))) (y_of (pts ! (idx ! i)))]) = Inr vs'"
        by (simp add: calc_vertices.simps[of pts idx i vs])
      from 1(1)[OF True r this] show ?thesis by simp
    next
      case False
      with 1(2) True show ?thesis by (simp add: calc_vertices.simps[of pts idx i vs])
    qed
  next
    case False
    with 1(2) show ?thesis by (simp add: calc_vertices.simps[of pts idx i vs])
  qed
qed

lemma triangulatePath_vertices:
  assumes "triangulatePath earcut (p, pl) = Inr (p', pl')"
  shows "vertices p' = map (\<lambda>i. points p ! i) (earcut (flat_coords (points p)))"
proof -
  define idx where "idx = earcut (flat_coords (points p))"
  obtain vs1 pl1 where g: "grow_vertices (length idx) (vertices p, pl) = (vs1, pl1)"
    by (cases "grow_vertices (length idx) (vertices p, pl)")
  have len1: "length vs1 = max (length idx) (length (vertices p))"
    using grow_vertices_length[of "length idx" "vertices p" pl] g by simp
  from assms g obtain vs2 where c: "calc_vertices (points p) idx 0 vs1 = Inr vs2"
    by (cases "calc_vertices (points p) idx 0 vs1")
       (simp_all add: triangulatePath_def idx_def[symmetric])
  obtain vs3 pl3 where r: "recycle_vertices (length idx) (vs2, pl1) = (vs3, pl3)"
    by (cases "recycle_vertices (length idx) (vs2, pl1)")
  from assms g c r have v: "vertices p' = vs3"
    by (auto simp add: triangulatePath_def idx_def[symmetric])
  have len2: "length vs2 = length vs1" by (rule calc_vertices_length[OF c])
  have vs3: "vs3 = take (length idx) vs2"
    using recycle_vertices_take[of "length idx" vs2 pl1] r by simp
  have "take (length idx) vs2 = map (\<lambda>i. points p ! i) idx"
  proof (rule nth_equalityI)
    show "length (take (length idx) vs2) = length (map (\<lambda>i. points p ! i) idx)"
      using len1 len2 by simp
  next
    fix k assume "k < length (take (length idx) vs2)"
    then have k: "k < length idx" by simp
    with len1 have "k < length vs1" by simp
    from calc_vertices_nth[OF c _ this] k len1
    show "take (length idx) vs2 ! k = map (\<lambda>i. points p ! i) idx ! k" by simp
  qed
  with v vs3 show ?thesis by (simp add: idx_def)
qed

subsection \<open>closePath\<close>

lemma strict_eq_refl: "a \<noteq> NaN \<Longrightarrow> strict_eq a a"
  by (cases a) simp_all

lemma strict_eq_NaN_right: "\<not> strict_eq a NaN"
  by (cases a) simp_all

lemma equals_refl: "\<not> has_NaN q \<Longrightarrow> equals q q"
  by (simp add: equals_def has_NaN_def strict_eq_refl)

text \<open>
  Claim C4, as amended. A call of \<open>closePath\<close> appends a copy of the first point exactly
  when the sequence has more than one point and the last point is not coordinate-equal to
  the first, and changes nothing otherwise. It is idempotent, a second call in succession
  appending nothing, exactly on the sequences that have at most one point or whose first
  point has no NaN coordinate.
\<close>

theorem closePath_idempotent:
  "(closePath (closePath (p, pl)) = closePath (p, pl)) =
     (length (points p) \<le> 1 \<or> \<not> has_NaN (points p ! 0)) \<and>
   closePath (p, pl) =
     (if 1 < length (points p) \<and> \<not> equals (points p ! (length (points p) - 1)) (points p ! 0)
      then (p\<lparr>points := points p @ [points p ! 0]\<rparr>, snd (pull pl (x_of (points p ! 0)) (y_of (points p ! 0))))
      else (p, pl))"
proof (intro conjI)
  show "closePath (p, pl) =
     (if 1 < length (points p) \<and> \<not> equals (points p ! (length (points p) - 1)) (points p ! 0)
      then (p\<lparr>points := points p @ [points p ! 0]\<rparr>, snd (pull pl (x_of (points p ! 0)) (y_of (points p ! 0))))
      else (p, pl))"
    by (simp add: closePath_def pull_def)
next
  show "(closePath (closePath (p, pl)) = closePath (p, pl)) =
     (length (points p) \<le> 1 \<or> \<not> has_NaN (points p ! 0))"
  proof (cases "length (points p) \<le> 1")
    case True
    then show ?thesis by (simp add: closePath_def)
  next
    case long: False
    then have ne: "points p \<noteq> []" by auto
    show ?thesis
    proof (cases "has_NaN (points p ! 0)")
      case True
      then have n: "\<And>q. \<not> equals q (points p ! 0)"
        by (cases "points p ! 0") (auto simp add: equals_def has_NaN_def strict_eq_NaN_right)
      have a1: "acquired (snd (closePath (p, pl))) = Suc (acquired pl)"
        using long n by (simp add: closePath_def pull_def)
      have a2: "acquired (snd (closePath (closePath (p, pl)))) = Suc (Suc (acquired pl))"
        using long n ne by (simp add: closePath_def pull_def nth_append)
      have "closePath (closePath (p, pl)) \<noteq> closePath (p, pl)"
      proof
        assume "closePath (closePath (p, pl)) = closePath (p, pl)"
        with a1 a2 show False by simp
      qed
      with long True show ?thesis by simp
    next
      case False
      then have r: "equals (points p ! 0) (points p ! 0)" by (simp add: equals_refl)
      have "(points p @ [points p ! 0]) ! 0 = points p ! 0"
        using ne by (simp add: nth_append)
      with long False r show ?thesis
        by (simp add: closePath_def pull_def)
    qed
  qed
qed

theorem closePath_idempotent_witness:
  "\<not> has_NaN (points triangle_path ! 0) \<and>
   closePath (closePath (triangle_path, pool0)) = closePath (triangle_path, pool0) \<and>
   points (fst (closePath (triangle_path, pool0))) = points triangle_path @ [Point (Num 0) (Num 0)]"
proof -
  have h: "\<not> has_NaN (points triangle_path ! 0)"
    by (simp add: triangle_path_def has_NaN_def)
  have e: "\<not> equals (points triangle_path ! (length (points triangle_path) - 1)) (points triangle_path ! 0)"
    by (simp add: triangle_path_def equals_def)
  have l: "1 < length (points triangle_path)" "points triangle_path ! 0 = Point (Num 0) (Num 0)"
    by (simp_all add: triangle_path_def)
  have c: "1 < length (points triangle_path) \<and>
           \<not> equals (points triangle_path ! (length (points triangle_path) - 1)) (points triangle_path ! 0)"
    using e l by blast
  note t = closePath_idempotent[of triangle_path pool0]
  have i: "closePath (closePath (triangle_path, pool0)) = closePath (triangle_path, pool0)"
    using conjunct1[OF t] h by blast
  from conjunct2[OF t]
  have "closePath (triangle_path, pool0) =
          (triangle_path\<lparr>points := points triangle_path @ [points triangle_path ! 0]\<rparr>,
           snd (pull pool0 (x_of (points triangle_path ! 0)) (y_of (points triangle_path ! 0))))"
    by (simp only: c simp_thms if_True)
  then have pts: "points (fst (closePath (triangle_path, pool0))) =
                  points triangle_path @ [Point (Num 0) (Num 0)]"
    by (simp add: l)
  from h i pts show ?thesis by blast
qed

text \<open>
  The claim as it was stated fails when the first point has a NaN coordinate: the copy
  appended by the first call is not equal to the first point either, and the second call
  appends another one. Two points become four.
\<close>

theorem closePath_NaN_appends_twice:
  "length (points (fst (closePath (closePath
      (\<lparr>points = [Point NaN (Num 0), Point (Num 1) (Num 1)], arcResolution = Num 5, vertices = []\<rparr>, pool0))))) = 4"
  by (simp add: closePath_def pull_def equals_def pool0_def)

subsection \<open>The interpolation loop of arc\<close>

lemma arc_loop_stop:
  "\<not> js_lt (Num (real j)) nr \<Longrightarrow> arc_loop x y radius direction dangle nr j angle s = Some s"
  by (subst arc_loop.simps) simp

lemma arc_loop_step:
  "js_lt (Num (real j)) nr \<Longrightarrow>
   arc_loop x y radius direction dangle nr j angle (pts, pl) =
   arc_loop x y radius direction dangle nr (Suc j) (js_add angle (js_mul direction dangle))
     (pts @ [Point (js_add x (js_mul radius (js_cos angle))) (js_add y (js_mul radius (js_sin angle)))],
      snd (pull pl (js_add x (js_mul radius (js_cos angle))) (js_add y (js_mul radius (js_sin angle)))))"
  by (subst arc_loop.simps) (simp add: pull_def)

lemma arc_loop_Some_not_PosInf:
  assumes "arc_loop x y radius direction dangle nr j angle s = Some r"
  shows "nr \<noteq> PosInf"
proof (rule arc_loop.raw_induct[where P = "\<lambda>x y radius direction dangle nr j angle s r. nr \<noteq> PosInf"
       and xa = "((((((((x, y), radius), direction), dangle), nr), j), angle), s)" and ya = r, simplified])
  fix f x y radius direction dangle nr j angle and s :: "point list \<times> pool" and r
  assume IH: "\<And>a b c d e g h i k ya. f a b c d e g h i k = Some ya \<Longrightarrow> g \<noteq> PosInf"
    and body: "(if js_lt (Num (real j)) nr
      then case s of
           (pts, pl) \<Rightarrow>
             case pull pl (js_add x (js_mul radius (js_cos angle)))
                   (js_add y (js_mul radius (js_sin angle))) of
             (q, pl') \<Rightarrow>
               f x y radius direction dangle nr (Suc j)
                (js_add angle (js_mul direction dangle)) (pts @ [q], pl')
      else Some s) = Some r"
  show "nr \<noteq> PosInf"
  proof
    assume inf: "nr = PosInf"
    obtain pts pl where s: "s = (pts, pl)" by (cases s)
    from body inf s obtain j' angle' s' where "f x y radius direction dangle nr j' angle' s' = Some r"
      by (auto simp: pull_def)
    from IH[OF this] inf show False by simp
  qed
next
  show "arc_loop x y radius direction dangle nr j angle s = Some r" by (rule assms)
qed

lemma arc_loop_diverges: "arc_loop x y radius direction dangle PosInf j angle s = None"
  using arc_loop_Some_not_PosInf[of x y radius direction dangle PosInf j angle s] by (cases "arc_loop x y radius direction dangle PosInf j angle s") auto

subsection \<open>arc\<close>

lemma js_add_zero_right: "js_add a (Num 0) = a"
  by (cases a) simp_all

lemma js_cos_add_TAU: "js_cos (js_add a TAU) = js_cos a"
  by (cases a) (simp_all add: TAU_def)

lemma js_sin_add_TAU: "js_sin (js_add a TAU) = js_sin a"
  by (cases a) (simp_all add: TAU_def)

lemma cos_sub_turns: "cos (a - 2 * pi * of_int k) = cos (a::real)"
  by (simp add: cos_diff)

lemma sin_sub_turns: "sin (a - 2 * pi * of_int k) = sin (a::real)"
  by (simp add: sin_diff)

lemma js_cos_mod_TAU: "js_cos (js_mod a TAU) = js_cos a"
  by (cases a) (simp_all add: TAU_def cos_sub_turns)

lemma js_sin_mod_TAU: "js_sin (js_mod a TAU) = js_sin a"
  by (cases a) (simp_all add: TAU_def sin_sub_turns)

lemma js_cos_arc_endAngle: "js_cos (arc_endAngle startAngle endAngle) = js_cos endAngle"
  by (simp add: arc_endAngle_def Let_def js_cos_add_TAU js_cos_mod_TAU)

lemma js_sin_arc_endAngle: "js_sin (arc_endAngle startAngle endAngle) = js_sin endAngle"
  by (simp add: arc_endAngle_def Let_def js_sin_add_TAU js_sin_mod_TAU)
lemma arc_result:
  assumes "\<not> strict_eq startAngle endAngle"
    and "arc_loop x y radius (if anticlockwise then Num (- 1) else Num 1)
           (js_div (arc_diff startAngle endAngle anticlockwise)
              (js_div (js_mul (arc_diff startAngle endAngle anticlockwise) radius) (arcResolution p)))
           (js_div (js_mul (arc_diff startAngle endAngle anticlockwise) radius) (arcResolution p))
           0 (arc_startAngle startAngle) (points p, pl) = r"
  shows "arc (p, pl) x y radius startAngle endAngle anticlockwise =
           (case r of None \<Rightarrow> None
            | Some (pts, pl') \<Rightarrow>
                Some (p\<lparr>points := pts @ [Point (js_add x (js_mul radius (js_cos (arc_endAngle startAngle endAngle))))
                                               (js_add y (js_mul radius (js_sin (arc_endAngle startAngle endAngle))))]\<rparr>,
                      snd (pull pl' (js_add x (js_mul radius (js_cos (arc_endAngle startAngle endAngle))))
                                    (js_add y (js_mul radius (js_sin (arc_endAngle startAngle endAngle)))))))"
  using assms by (auto simp add: arc_def Let_def pull_def split: option.splits)

text \<open>
  Claim C8. A call of \<open>arc\<close> whose start angle is equal (\<^verbatim>\<open>===\<close>) to its end angle
  returns at once: the point sequence, the rest of the path and the pool are unchanged.
\<close>

theorem arc_zero_sweep_noop:
  "strict_eq startAngle endAngle \<Longrightarrow>
   arc (p, pl) x y radius startAngle endAngle anticlockwise = Some (p, pl)"
  by (simp add: arc_def)

theorem arc_zero_sweep_noop_witness:
  "strict_eq (Num 1) (Num 1) \<and>
   arc (triangle_path, pool0) (Num 0) (Num 0) (Num 10) (Num 1) (Num 1) False = Some (triangle_path, pool0)"
proof -
  have h: "strict_eq (Num 1) (Num 1)" by simp
  from arc_zero_sweep_noop[OF h] h show ?thesis by simp
qed

lemma trunc_small: "0 \<le> q \<Longrightarrow> q < 1 \<Longrightarrow> trunc q = 0"
  by (simp add: trunc_def floor_eq_iff)

lemma one_less_two_pi: "1 < 2 * pi"
  using pi_ge_two by linarith

lemma arc_startAngle_zero: "arc_startAngle (Num 0) = Num 0"
  by (simp add: arc_startAngle_def TAU_def trunc_def)

lemma arc_endAngle_zero_one: "arc_endAngle (Num 0) (Num 1) = Num 1"
proof -
  have "trunc (1 / (2 * pi)) = 0"
    using one_less_two_pi by (intro trunc_small) simp_all
  then have "js_mod (Num 1) TAU = Num 1" by (simp add: TAU_def)
  then show ?thesis by (simp add: arc_endAngle_def arc_startAngle_zero)
qed

lemma arc_diff_zero_one: "arc_diff (Num 0) (Num 1) False = Num 1"
  using one_less_two_pi
  by (simp add: arc_diff_def arc_endAngle_zero_one arc_startAngle_zero js_sub_def TAU_def)

subsection \<open>arc, with the arithmetic of the platform as a parameter\<close>

lemma arc_fp_loop_stop:
  "\<not> js_lt j nr \<Longrightarrow> arc_fp_loop fp x y radius direction dangle nr j angle s = Some s"
  by (subst arc_fp_loop.simps) simp

lemma arc_fp_loop_step:
  "js_lt j nr \<Longrightarrow>
   arc_fp_loop fp x y radius direction dangle nr j angle (pts, pl) =
   arc_fp_loop fp x y radius direction dangle nr (fadd fp j (Num 1))
     (fadd fp angle (fmul fp direction dangle))
     (pts @ [Point (fadd fp x (fmul fp radius (fcos fp angle)))
                   (fadd fp y (fmul fp radius (fsin fp angle)))],
      snd (pull pl (fadd fp x (fmul fp radius (fcos fp angle)))
                   (fadd fp y (fmul fp radius (fsin fp angle)))))"
  by (subst arc_fp_loop.simps) (simp add: pull_def)

lemma arc_fp_loop_Some_not_PosInf:
  assumes "arc_fp_loop fp x y radius direction dangle nr j angle s = Some r"
  shows "is_finite j \<longrightarrow> nr = PosInf \<longrightarrow> \<not> finite_increments fp"
proof (rule arc_fp_loop.raw_induct[where P = "\<lambda>fp x y radius direction dangle nr j angle s r.
          \<not> (nr = PosInf \<and> is_finite j \<and> finite_increments fp)"
       and xa = "(((((((((fp, x), y), radius), direction), dangle), nr), j), angle), s)" and ya = r,
       simplified])
  fix f fp x y radius direction dangle nr j angle and s :: "point list \<times> pool" and r
  assume IH: "\<And>a b c d e g h i k l ya. f a b c d e g h i k l = Some ya \<Longrightarrow>
                is_finite i \<longrightarrow> h = PosInf \<longrightarrow> \<not> finite_increments a"
    and body: "(if js_lt j nr
      then case s of
           (pts, pl) \<Rightarrow>
             case pull pl (fadd fp x (fmul fp radius (fcos fp angle)))
                   (fadd fp y (fmul fp radius (fsin fp angle))) of
             (q, pl') \<Rightarrow>
               f fp x y radius direction dangle nr (fadd fp j (Num 1))
                (fadd fp angle (fmul fp direction dangle)) (pts @ [q], pl')
      else Some s) = Some r"
  show "is_finite j \<longrightarrow> nr = PosInf \<longrightarrow> \<not> finite_increments fp"
  proof (intro impI notI)
    assume fin: "is_finite j" and inf: "nr = PosInf" and incr: "finite_increments fp"
    from fin obtain a where j: "j = Num a" by (cases j) auto
    obtain pts pl where s: "s = (pts, pl)" by (cases s)
    from body inf s j obtain angle' s' where
      "f fp x y radius direction dangle nr (fadd fp (Num a) (Num 1)) angle' s' = Some r"
      by (auto simp: pull_def)
    from IH[OF this] inf incr show False by (simp add: finite_increments_def)
  qed
next
  show "arc_fp_loop fp x y radius direction dangle nr j angle s = Some r" by (rule assms)
qed

lemma arc_fp_loop_diverges:
  assumes "finite_increments fp"
  shows "arc_fp_loop fp x y radius direction dangle PosInf (Num a) angle s = None"
proof (cases "arc_fp_loop fp x y radius direction dangle PosInf (Num a) angle s")
  case None
  then show ?thesis .
next
  case (Some r)
  from arc_fp_loop_Some_not_PosInf[OF this] assms show ?thesis by simp
qed

lemma arc_fp_loop_returns_finite:
  assumes "exact_counter fp (nat \<lceil>n\<rceil>)" and "k \<le> nat \<lceil>n\<rceil>"
  shows "\<exists>pts' pl'. arc_fp_loop fp x y radius direction dangle (Num n) (Num (real k)) angle (pts, pl) =
            Some (pts', pl') \<and> length pts' = length pts + (nat \<lceil>n\<rceil> - k)"
  using assms(2)
proof (induction "nat \<lceil>n\<rceil> - k" arbitrary: k angle pts pl)
  case 0
  then have "k = nat \<lceil>n\<rceil>" by arith
  then have "\<not> real k < n" by linarith
  then have "\<not> js_lt (Num (real k)) (Num n)" by simp
  then have "arc_fp_loop fp x y radius direction dangle (Num n) (Num (real k)) angle (pts, pl) =
               Some (pts, pl)"
    by (rule arc_fp_loop_stop)
  moreover from 0 have "nat \<lceil>n\<rceil> - k = 0" by arith
  ultimately show ?case by simp
next
  case (Suc m)
  then have lt: "k < nat \<lceil>n\<rceil>" by simp
  then have rk: "real k < n" by linarith
  from lt assms(1) have inc: "fadd fp (Num (real k)) (Num 1) = Num (real (Suc k))"
    by (simp add: exact_counter_def)
  from Suc(2) have m: "m = nat \<lceil>n\<rceil> - Suc k" by simp
  from lt have le: "Suc k \<le> nat \<lceil>n\<rceil>" by simp
  let ?q = "Point (fadd fp x (fmul fp radius (fcos fp angle))) (fadd fp y (fmul fp radius (fsin fp angle)))"
  let ?pl = "snd (pull pl (fadd fp x (fmul fp radius (fcos fp angle))) (fadd fp y (fmul fp radius (fsin fp angle))))"
  from Suc(1)[OF m le, of "fadd fp angle (fmul fp direction dangle)" "pts @ [?q]" ?pl]
  obtain pts' pl' where
    r: "arc_fp_loop fp x y radius direction dangle (Num n) (Num (real (Suc k)))
          (fadd fp angle (fmul fp direction dangle)) (pts @ [?q], ?pl) = Some (pts', pl')"
    and l: "length pts' = length (pts @ [?q]) + (nat \<lceil>n\<rceil> - Suc k)"
    by blast
  have "arc_fp_loop fp x y radius direction dangle (Num n) (Num (real k)) angle (pts, pl) = Some (pts', pl')"
    using rk r by (simp add: arc_fp_loop_step inc del: of_nat_Suc)
  moreover have "length pts' = length pts + (nat \<lceil>n\<rceil> - k)"
    using l lt by simp
  ultimately show ?case by blast
qed

lemma arc_fp_loop_returns:
  assumes "nr \<noteq> PosInf" and "exact_counter fp (iterations nr)"
  shows "\<exists>pts' pl'. arc_fp_loop fp x y radius direction dangle nr (Num 0) angle (pts, pl) =
            Some (pts', pl') \<and> length pts' = length pts + iterations nr"
proof (cases nr)
  case (Num n)
  with assms(2) have "exact_counter fp (nat \<lceil>n\<rceil>)" by (simp add: iterations_def)
  from arc_fp_loop_returns_finite[OF this, of 0 x y radius direction dangle angle pts pl] Num
  show ?thesis by (simp add: iterations_def)
next
  case PosInf
  with assms show ?thesis by simp
next
  case NegInf
  then show ?thesis by (simp add: arc_fp_loop_stop iterations_def)
next
  case NaN
  then show ?thesis by (simp add: arc_fp_loop_stop iterations_def)
qed

lemma arc_fp_result:
  assumes "\<not> strict_eq startAngle endAngle"
    and "arc_fp_loop fp x y radius (if anticlockwise then Num (- 1) else Num 1)
           (fdiv fp (arc_fp_diff fp startAngle endAngle anticlockwise)
              (arc_fp_count fp p radius startAngle endAngle anticlockwise))
           (arc_fp_count fp p radius startAngle endAngle anticlockwise)
           (Num 0) (arc_fp_startAngle fp startAngle) (points p, pl) = r"
  shows "arc_fp fp (p, pl) x y radius startAngle endAngle anticlockwise =
           (case r of None \<Rightarrow> None
            | Some (pts, pl') \<Rightarrow>
                Some (p\<lparr>points := pts @ [Point (fadd fp x (fmul fp radius (fcos fp (arc_fp_endAngle fp startAngle endAngle))))
                                               (fadd fp y (fmul fp radius (fsin fp (arc_fp_endAngle fp startAngle endAngle))))]\<rparr>,
                      snd (pull pl' (fadd fp x (fmul fp radius (fcos fp (arc_fp_endAngle fp startAngle endAngle))))
                                    (fadd fp y (fmul fp radius (fsin fp (arc_fp_endAngle fp startAngle endAngle)))))))"
  using assms by (auto simp add: arc_fp_def arc_fp_count_def Let_def pull_def split: option.splits)

lemma exact_ops:
  "fadd exact_arith = js_add" "fsub exact_arith = js_sub" "fmul exact_arith = js_mul"
  "fdiv exact_arith = js_div" "frem exact_arith = js_mod" "fcos exact_arith = js_cos"
  "fsin exact_arith = js_sin" "ftau exact_arith = TAU"
  by (simp_all add: exact_arith_def)

lemma arc_fp_startAngle_exact: "arc_fp_startAngle exact_arith a = arc_startAngle a"
  unfolding arc_fp_startAngle_def arc_startAngle_def exact_ops by (rule refl)

lemma arc_fp_endAngle_exact: "arc_fp_endAngle exact_arith a b = arc_endAngle a b"
  unfolding arc_fp_endAngle_def arc_endAngle_def arc_fp_startAngle_exact exact_ops by (rule refl)

lemma arc_fp_diff_exact: "arc_fp_diff exact_arith a b c = arc_diff a b c"
  unfolding arc_fp_diff_def arc_diff_def arc_fp_startAngle_exact arc_fp_endAngle_exact exact_ops
  by (rule refl)

lemma exact_counter_exact: "exact_counter exact_arith N"
  by (simp add: exact_counter_def exact_ops add.commute)

lemma finite_increments_exact: "finite_increments exact_arith"
  by (simp add: finite_increments_def exact_ops)

lemma arc_fp_loop_exact_finite:
  "arc_fp_loop exact_arith x y radius direction dangle (Num n) (Num (real j)) angle s =
   arc_loop x y radius direction dangle (Num n) j angle s"
proof (induction "nat \<lceil>n\<rceil> - j" arbitrary: j angle s)
  case 0
  then have "\<not> real j < n" by linarith
  then show ?case by (simp add: arc_fp_loop_stop arc_loop_stop)
next
  case (Suc k)
  show ?case
  proof (cases "real j < n")
    case True
    obtain pts pl where s: "s = (pts, pl)" by (cases s)
    from Suc(2) have k: "k = nat \<lceil>n\<rceil> - Suc j" by simp
    have r: "real (Suc j) = real j + 1" by simp
    note ih = Suc(1)[OF k, unfolded r]
    from True s show ?thesis
      by (simp add: arc_fp_loop_step arc_loop_step exact_ops ih)
  next
    case False
    then show ?thesis by (simp add: arc_fp_loop_stop arc_loop_stop)
  qed
qed

lemma arc_fp_loop_exact:
  "arc_fp_loop exact_arith x y radius direction dangle nr (Num (real j)) angle s =
   arc_loop x y radius direction dangle nr j angle s"
proof (cases nr)
  case (Num n)
  then show ?thesis by (simp add: arc_fp_loop_exact_finite)
next
  case PosInf
  then show ?thesis
    by (simp add: arc_loop_diverges arc_fp_loop_diverges[OF finite_increments_exact])
next
  case NegInf
  then show ?thesis by (simp add: arc_fp_loop_stop arc_loop_stop)
next
  case NaN
  then show ?thesis by (simp add: arc_fp_loop_stop arc_loop_stop)
qed

lemma arc_fp_exact:
  "arc_fp exact_arith s x y radius startAngle endAngle anticlockwise =
   arc s x y radius startAngle endAngle anticlockwise"
proof -
  have z: "Num 0 = Num (real 0)" by simp
  show ?thesis
    unfolding arc_fp_def arc_def arc_fp_diff_exact arc_fp_startAngle_exact arc_fp_endAngle_exact exact_ops
    by (subst z) (simp only: arc_fp_loop_exact)
qed

text \<open>
  Claim C3, as amended. For a call of \<open>arc\<close> with different start and end angles:
  \<^item> if the number of interpolation points that the code computes is \<^verbatim>\<open>Infinity\<close>, the
    loop does not end and the call does not return (the counter stays finite);
  \<^item> if that number is not \<^verbatim>\<open>Infinity\<close>, the counter is incremented exactly as far as
    the loop runs, and the pushes stay within the length that an array can have, then the
    call returns, one point was appended for each turn of the loop and one more after it,
    and this last point is \<open>(x + radius * cos e, y + radius * sin e)\<close>, computed with the
    arithmetic of the platform at the end angle \<open>e\<close> as the code has normalised it.
  This holds for every arithmetic. The normalised angle is the requested one only up to
  whole turns of the double \<^verbatim>\<open>TAU\<close> and to rounding, so the point is the point at the
  requested end angle over the reals, and not always bit for bit in doubles.
\<close>

theorem arc_fp_terminal_point:
  assumes ne: "\<not> strict_eq startAngle endAngle"
  shows "(arc_fp_count fp p radius startAngle endAngle anticlockwise = PosInf \<and> finite_increments fp \<longrightarrow>
            arc_fp fp (p, pl) x y radius startAngle endAngle anticlockwise = None) \<and>
         (arc_fp_count fp p radius startAngle endAngle anticlockwise \<noteq> PosInf \<and>
          exact_counter fp (iterations (arc_fp_count fp p radius startAngle endAngle anticlockwise)) \<and>
          length (points p) + iterations (arc_fp_count fp p radius startAngle endAngle anticlockwise)
            < 2 ^ 32 - 1 \<longrightarrow>
            (\<exists>p' pl'. arc_fp fp (p, pl) x y radius startAngle endAngle anticlockwise = Some (p', pl') \<and>
               length (points p') =
                 length (points p) +
                 iterations (arc_fp_count fp p radius startAngle endAngle anticlockwise) + 1 \<and>
               last (points p') =
                 Point (fadd fp x (fmul fp radius (fcos fp (arc_fp_endAngle fp startAngle endAngle))))
                       (fadd fp y (fmul fp radius (fsin fp (arc_fp_endAngle fp startAngle endAngle))))))"
proof (intro conjI impI)
  assume "arc_fp_count fp p radius startAngle endAngle anticlockwise = PosInf \<and> finite_increments fp"
  then have "arc_fp_loop fp x y radius (if anticlockwise then Num (- 1) else Num 1)
           (fdiv fp (arc_fp_diff fp startAngle endAngle anticlockwise)
              (arc_fp_count fp p radius startAngle endAngle anticlockwise))
           (arc_fp_count fp p radius startAngle endAngle anticlockwise)
           (Num 0) (arc_fp_startAngle fp startAngle) (points p, pl) = None"
    by (simp add: arc_fp_loop_diverges)
  from arc_fp_result[OF ne this]
  show "arc_fp fp (p, pl) x y radius startAngle endAngle anticlockwise = None" by simp
next
  let ?nr = "arc_fp_count fp p radius startAngle endAngle anticlockwise"
  assume a: "?nr \<noteq> PosInf \<and> exact_counter fp (iterations ?nr) \<and>
             length (points p) + iterations ?nr < 2 ^ 32 - 1"
  then have "?nr \<noteq> PosInf" "exact_counter fp (iterations ?nr)" by simp_all
  from arc_fp_loop_returns[OF this]
  obtain pts pl' where l: "arc_fp_loop fp x y radius (if anticlockwise then Num (- 1) else Num 1)
           (fdiv fp (arc_fp_diff fp startAngle endAngle anticlockwise) ?nr) ?nr
           (Num 0) (arc_fp_startAngle fp startAngle) (points p, pl) = Some (pts, pl')"
    and n: "length pts = length (points p) + iterations ?nr"
    by blast
  from arc_fp_result[OF ne l] n
  show "\<exists>p' pl'. arc_fp fp (p, pl) x y radius startAngle endAngle anticlockwise = Some (p', pl') \<and>
               length (points p') = length (points p) + iterations ?nr + 1 \<and>
               last (points p') =
                 Point (fadd fp x (fmul fp radius (fcos fp (arc_fp_endAngle fp startAngle endAngle))))
                       (fadd fp y (fmul fp radius (fsin fp (arc_fp_endAngle fp startAngle endAngle))))"
    by simp
qed

theorem arc_fp_terminal_point_witness:
  "\<not> strict_eq (Num 0) (Num 1) \<and>
   arc_fp_count exact_arith triangle_path (Num 10) (Num 0) (Num 1) False = Num 2 \<and>
   exact_counter exact_arith 2 \<and>
   (\<exists>p' pl'. arc_fp exact_arith (triangle_path, pool0) (Num 0) (Num 0) (Num 10) (Num 0) (Num 1) False =
        Some (p', pl') \<and>
      length (points p') = 6 \<and>
      last (points p') = Point (Num (10 * cos 1)) (Num (10 * sin 1)))"
proof -
  have h: "\<not> strict_eq (Num 0) (Num 1)" by simp
  have c: "arc_fp_count exact_arith triangle_path (Num 10) (Num 0) (Num 1) False = Num 2"
    by (simp add: arc_fp_count_def arc_fp_diff_exact arc_diff_zero_one exact_ops triangle_path_def)
  have i: "iterations (Num 2) = 2" by (simp add: iterations_def)
  have e: "exact_counter exact_arith 2" by (rule exact_counter_exact)
  have l: "length (points triangle_path) = 3" by (simp add: triangle_path_def)
  have pre: "arc_fp_count exact_arith triangle_path (Num 10) (Num 0) (Num 1) False \<noteq> PosInf \<and>
        exact_counter exact_arith
          (iterations (arc_fp_count exact_arith triangle_path (Num 10) (Num 0) (Num 1) False)) \<and>
        length (points triangle_path) +
          iterations (arc_fp_count exact_arith triangle_path (Num 10) (Num 0) (Num 1) False)
          < 2 ^ 32 - 1"
    by (simp add: c i e l)
  from conjunct2[OF arc_fp_terminal_point[OF h, of exact_arith triangle_path "Num 10" False pool0 "Num 0" "Num 0"]] pre
  obtain p' pl' where a: "arc_fp exact_arith (triangle_path, pool0) (Num 0) (Num 0) (Num 10) (Num 0) (Num 1) False =
        Some (p', pl')"
    and n: "length (points p') = length (points triangle_path) +
              iterations (arc_fp_count exact_arith triangle_path (Num 10) (Num 0) (Num 1) False) + 1"
    and b: "last (points p') =
              Point (fadd exact_arith (Num 0) (fmul exact_arith (Num 10)
                       (fcos exact_arith (arc_fp_endAngle exact_arith (Num 0) (Num 1)))))
                    (fadd exact_arith (Num 0) (fmul exact_arith (Num 10)
                       (fsin exact_arith (arc_fp_endAngle exact_arith (Num 0) (Num 1)))))"
    by blast
  from n have n6: "length (points p') = 6" by (simp add: c i l)
  from b have "last (points p') = Point (Num (10 * cos 1)) (Num (10 * sin 1))"
    by (simp add: arc_fp_endAngle_exact arc_endAngle_zero_one exact_ops)
  with a n6 h c e show ?thesis by blast
qed

text \<open>
  The claim as it was stated fails on a path whose \<open>arcResolution\<close> is zero, and for an
  infinite radius: the number of interpolation points is \<open>10 / 0\<close>, or \<open>Infinity / 5\<close>,
  that is \<^verbatim>\<open>Infinity\<close>, the loop never ends, and the point at the end angle is never
  appended. Every operation of these two calls is exact in doubles too.
\<close>

theorem arc_fp_never_returns:
  "arc_fp exact_arith (\<lparr>points = [], arcResolution = Num 0, vertices = []\<rparr>, pool0)
       (Num 0) (Num 0) (Num 10) (Num 0) (Num 1) False = None \<and>
   arc_fp exact_arith (\<lparr>points = [], arcResolution = Num 5, vertices = []\<rparr>, pool0)
       (Num 0) (Num 0) PosInf (Num 0) (Num 1) False = None"
  by (simp add: arc_fp_exact arc_def arc_diff_zero_one inf_of_sign_def arc_loop_diverges)

text \<open>
  A finite radius and a resolution other than zero do not keep the number of interpolation
  points finite: with radius \<open>10 ^ 308\<close> and resolution \<open>1 / 2\<close> the quotient overflows
  to \<^verbatim>\<open>Infinity\<close>, and the call does not return.
\<close>

lemma overflow_ops:
  "fadd overflow_arith = js_add" "fsub overflow_arith = js_sub" "frem overflow_arith = js_mod"
  "ftau overflow_arith = TAU"
  by (simp_all add: overflow_arith_def exact_arith_def)

lemma arc_fp_diff_overflow: "arc_fp_diff overflow_arith a b c = arc_diff a b c"
  unfolding arc_fp_diff_def arc_diff_def arc_fp_endAngle_def arc_endAngle_def
    arc_fp_startAngle_def arc_startAngle_def overflow_ops
  by (rule refl)

lemma finite_increments_overflow: "finite_increments overflow_arith"
  by (simp add: finite_increments_def overflow_ops)

lemma overflow_count:
  "arc_fp_count overflow_arith \<lparr>points = [], arcResolution = Num (1 / 2), vertices = []\<rparr>
     (Num (10 ^ 308)) (Num 0) (Num 1) False = PosInf"
proof -
  have m: "fmul overflow_arith (Num 1) (Num (10 ^ 308)) = Num (10 ^ 308)"
    by (simp add: overflow_arith_def overflowing_def)
  have d: "fdiv overflow_arith (Num (10 ^ 308)) (Num (1 / 2)) = PosInf"
    by (simp add: overflow_arith_def overflowing_def inf_of_sign_def)
  have r: "arcResolution \<lparr>points = [], arcResolution = Num (1 / 2), vertices = []\<rparr> = Num (1 / 2)"
    by simp
  show ?thesis
    unfolding arc_fp_count_def arc_fp_diff_overflow arc_diff_zero_one r m d by (rule refl)
qed

lemma arc_fp_overflow_never_returns:
  "arc_fp overflow_arith (\<lparr>points = [], arcResolution = Num (1 / 2), vertices = []\<rparr>, pool0)
     (Num 0) (Num 0) (Num (10 ^ 308)) (Num 0) (Num 1) False = None"
proof -
  have ne: "\<not> strict_eq (Num 0) (Num 1)" by simp
  have "arc_fp_loop overflow_arith (Num 0) (Num 0) (Num (10 ^ 308)) (if False then Num (- 1) else Num 1)
          (fdiv overflow_arith (arc_fp_diff overflow_arith (Num 0) (Num 1) False)
             (arc_fp_count overflow_arith \<lparr>points = [], arcResolution = Num (1 / 2), vertices = []\<rparr>
                (Num (10 ^ 308)) (Num 0) (Num 1) False))
          (arc_fp_count overflow_arith \<lparr>points = [], arcResolution = Num (1 / 2), vertices = []\<rparr>
             (Num (10 ^ 308)) (Num 0) (Num 1) False)
          (Num 0) (arc_fp_startAngle overflow_arith (Num 0))
          (points \<lparr>points = [], arcResolution = Num (1 / 2), vertices = []\<rparr>, pool0) = None"
    unfolding overflow_count by (rule arc_fp_loop_diverges[OF finite_increments_overflow])
  from arc_fp_result[OF ne this] show ?thesis by simp
qed

lemma radius_zero_count:
  "\<not> js_lt (Num 0) (js_div (js_mul d (Num 0)) res)"
  by (cases d; cases res) (simp_all add: inf_of_sign_def)

lemma js_mul_zero_cos_finite: "is_finite a \<Longrightarrow> js_mul (Num 0) (js_cos a) = Num 0"
  by (cases a) simp_all

lemma js_mul_zero_sin_finite: "is_finite a \<Longrightarrow> js_mul (Num 0) (js_sin a) = Num 0"
  by (cases a) simp_all

text \<open>
  Claim C10, as amended. For a call of \<open>arc\<close> with radius zero, different start and end
  angles and a finite end angle, the loop runs zero times and exactly one point is appended,
  with the coordinates \<open>(x, y)\<close>; the quotient of the sweep by the zero count is never used.
\<close>

theorem arc_radius_zero:
  assumes ne: "\<not> strict_eq startAngle endAngle"
    and fin: "is_finite endAngle"
  shows "arc (p, pl) x y (Num 0) startAngle endAngle anticlockwise =
           Some (p\<lparr>points := points p @ [Point x y]\<rparr>, snd (pull pl x y))"
proof -
  let ?nr = "js_div (js_mul (arc_diff startAngle endAngle anticlockwise) (Num 0)) (arcResolution p)"
  have "arc_loop x y (Num 0) (if anticlockwise then Num (- 1) else Num 1)
           (js_div (arc_diff startAngle endAngle anticlockwise) ?nr) ?nr
           0 (arc_startAngle startAngle) (points p, pl) = Some (points p, pl)"
    by (rule arc_loop_stop) (simp add: radius_zero_count)
  from arc_result[OF ne this] fin show ?thesis
    by (simp add: js_cos_arc_endAngle js_sin_arc_endAngle js_mul_zero_cos_finite
        js_mul_zero_sin_finite js_add_zero_right)
qed

theorem arc_radius_zero_witness:
  "\<not> strict_eq (Num 0) (Num 1) \<and> is_finite (Num 1) \<and>
   arc (triangle_path, pool0) (Num 3) (Num 4) (Num 0) (Num 0) (Num 1) True =
     Some (triangle_path\<lparr>points := points triangle_path @ [Point (Num 3) (Num 4)]\<rparr>,
           snd (pull pool0 (Num 3) (Num 4)))"
proof -
  have h1: "\<not> strict_eq (Num 0) (Num 1)" by simp
  have h2: "is_finite (Num 1)" by simp
  from arc_radius_zero[OF h1 h2] h1 h2 show ?thesis by simp
qed

text \<open>
  The claim as it was stated fails for an end angle that is not finite: the point appended
  for radius zero and end angle \<^verbatim>\<open>Infinity\<close> has the coordinates \<open>(NaN, NaN)\<close>, since
  \<^verbatim>\<open>Infinity % TAU\<close> is NaN and so are its cosine and \<open>0 * NaN\<close>.
\<close>

theorem arc_radius_zero_infinite_endAngle:
  "arc (\<lparr>points = [], arcResolution = Num 5, vertices = []\<rparr>, pool0)
       (Num 0) (Num 0) (Num 0) (Num 0) PosInf False =
   Some (\<lparr>points = [Point NaN NaN], arcResolution = Num 5, vertices = []\<rparr>,
         \<lparr>recycled = [], acquired = 1, released = 0\<rparr>)"
proof -
  have d: "arc_diff (Num 0) PosInf False = TAU"
    by (simp add: arc_diff_def js_sub_def TAU_def)
  have e: "arc_endAngle (Num 0) PosInf = NaN"
    by (simp add: arc_endAngle_def TAU_def arc_startAngle_zero)
  have "arc_loop (Num 0) (Num 0) (Num 0) (Num 1) (js_div TAU (js_div (js_mul TAU (Num 0)) (Num 5)))
          (js_div (js_mul TAU (Num 0)) (Num 5)) 0 (Num 0) ([], pool0) = Some ([], pool0)"
    by (rule arc_loop_stop) (simp add: TAU_def)
  then show ?thesis
    by (simp add: arc_def d e arc_startAngle_zero pull_def pool0_def)
qed

section \<open>Properties of the TMX utilities\<close>

subsection \<open>setTMXValue\<close>

text \<open>
  Claim C9. For every property name and every type tag other than "int", "float" and "bool",
  \<open>setTMXValue\<close> of the empty string is the boolean true.
\<close>

theorem setTMXValue_empty_string:
  assumes "type \<noteq> JString ''int''" "type \<noteq> JString ''float''" "type \<noteq> JString ''bool''"
  shows "setTMXValue pf name type (JString []) = Inr (JBool True)"
  using assms by (simp add: setTMXValue_def)

theorem setTMXValue_empty_string_witness:
  "JString ''string'' \<noteq> JString ''int'' \<and> JString ''string'' \<noteq> JString ''float'' \<and>
   JString ''string'' \<noteq> JString ''bool'' \<and>
   setTMXValue example_platform ''visible'' (JString ''string'') (JString []) = Inr (JBool True)"
proof -
  have h: "JString ''string'' \<noteq> JString ''int''" "JString ''string'' \<noteq> JString ''float''"
    "JString ''string'' \<noteq> JString ''bool''"
    by simp_all
  from setTMXValue_empty_string[OF h] h show ?thesis by simp
qed

text \<open>
  Claim C6, as amended. With a type tag other than "int", "float" and "bool", a string value
  that starts with "json:" or "eval:" (and that the two tests before these branches, isBoolean
  and isNumeric, reject) is handed to the parser or the evaluator without its prefix. If that
  throws, \<open>setTMXValue\<close> raises an error that carries the payload. Otherwise it returns the
  parsed value, except that a number parsed for the property name "ratio" or "anchorPoint"
  is returned as the vector with that number as both coordinates.
\<close>

theorem setTMXValue_json_eval:
  assumes ty: "type \<noteq> JString ''int''" "type \<noteq> JString ''float''" "type \<noteq> JString ''bool''"
    and nb: "\<not> isBoolean pf value" and nn: "\<not> isNumeric pf value"
    and pre: "starts_with_ci ''json:'' value \<or> starts_with_ci ''eval:'' value"
  shows "setTMXValue pf name type (JString value) =
           (case (if starts_with_ci ''json:'' value then JSON_parse pf (drop 5 value)
                  else evaluate pf (drop 5 value)) of
              None \<Rightarrow>
                Inl (Error ((if starts_with_ci ''json:'' value then ''Unable to parse JSON: ''
                             else ''Unable to evaluate: '') @ drop 5 value))
            | Some r \<Rightarrow>
                Inr (if name = ''ratio'' \<or> name = ''anchorPoint''
                     then (case r of
                             JNumber n \<Rightarrow> JObject [(''x'', JNumber n), (''y'', JNumber n)]
                           | _ \<Rightarrow> r)
                     else r))"
proof -
  from pre have ne: "value \<noteq> []" by (auto simp: starts_with_ci_def)
  show ?thesis
  proof (cases "starts_with_ci ''json:'' value")
    case True
    then show ?thesis
      using ty nb nn ne
      by (cases "JSON_parse pf (drop 5 value)")
         (auto simp add: setTMXValue_def split: jsval.splits)
  next
    case False
    with pre have "starts_with_ci ''eval:'' value" by simp
    then show ?thesis
      using ty nb nn ne False
      by (cases "evaluate pf (drop 5 value)")
         (auto simp add: setTMXValue_def split: jsval.splits)
  qed
qed

theorem setTMXValue_json_eval_witness:
  "JString ''string'' \<noteq> JString ''int'' \<and> JString ''string'' \<noteq> JString ''float'' \<and>
   JString ''string'' \<noteq> JString ''bool'' \<and>
   \<not> isBoolean example_platform ''json:{'' \<and> \<not> isNumeric example_platform ''json:{'' \<and>
   (starts_with_ci ''json:'' ''json:{'' \<or> starts_with_ci ''eval:'' ''json:{'') \<and>
   setTMXValue example_platform ''speed'' (JString ''string'') (JString ''json:{'') =
     Inl (Error ''Unable to parse JSON: {'')"
proof -
  have h: "JString ''string'' \<noteq> JString ''int''" "JString ''string'' \<noteq> JString ''float''"
    "JString ''string'' \<noteq> JString ''bool''"
    by simp_all
  have b: "\<not> isBoolean example_platform ''json:{''" by code_simp
  have n: "\<not> isNumeric example_platform ''json:{''" by code_simp
  have j: "starts_with_ci ''json:'' ''json:{''" by code_simp
  then have p: "starts_with_ci ''json:'' ''json:{'' \<or> starts_with_ci ''eval:'' ''json:{''" by simp
  have parse: "JSON_parse example_platform ''{'' = None" by code_simp
  from setTMXValue_json_eval[OF h b n p, of "''speed''"] h b n p j parse show ?thesis
    by simp
qed

text \<open>
  The claim as it was stated fails for a number under the property name "ratio": the payload
  of "json:2" parses to the number 2, and the value returned is the vector \<open>{x: 2, y: 2}\<close>.
\<close>

theorem setTMXValue_ratio_json_number:
  "JSON_parse example_platform ''2'' = Some (JNumber (Num 2)) \<and>
   setTMXValue example_platform ''ratio'' (JString ''string'') (JString ''json:2'') =
     Inr (JObject [(''x'', JNumber (Num 2)), (''y'', JNumber (Num 2))])"
proof -
  have b: "\<not> isBoolean example_platform ''json:2''" by code_simp
  have n: "\<not> isNumeric example_platform ''json:2''" by code_simp
  have j: "starts_with_ci ''json:'' ''json:2''" by code_simp
  have d: "decimal ''2'' = Some 2" by code_simp
  have parse: "JSON_parse example_platform ''2'' = Some (JNumber (Num 2))"
    by (simp add: example_platform_def d)
  from b n j parse show ?thesis
    by (simp add: setTMXValue_def)
qed

subsection \<open>decodeBase64AsArray and decode\<close>

lemma fill_array_length: "length (fill_array dec bytes i ar) = length ar"
proof (induction dec bytes i ar rule: fill_array.induct)
  case (1 dec bytes i ar)
  show ?case
  proof (cases "0 < bytes \<and> i * bytes < length dec")
    case True
    from 1[OF True] True show ?thesis
      by (simp add: fill_array.simps[of dec bytes i ar])
  next
    case False
    then have "fill_array dec bytes i ar = ar"
      by (subst fill_array.simps) (rule if_not_P)
    then show ?thesis by simp
  qed
qed

lemma fill_array_nth:
  "k < length ar \<Longrightarrow>
   fill_array dec bytes i ar ! k =
     (if i \<le> k \<and> 0 < bytes \<and> k * bytes < length dec then add_bytes dec bytes k bytes 0 else ar ! k)"
proof (induction dec bytes i ar rule: fill_array.induct)
  case (1 dec bytes i ar)
  show ?case
  proof (cases "0 < bytes \<and> i * bytes < length dec")
    case True
    let ?ar' = "if i < length ar then ar[i := add_bytes dec bytes i bytes 0] else ar"
    have len: "k < length ?ar'" using 1(2) by simp
    have step: "fill_array dec bytes i ar = fill_array dec bytes (Suc i) ?ar'"
      using True by (simp add: fill_array.simps[of dec bytes i ar])
    have ih: "fill_array dec bytes (Suc i) ?ar' ! k =
        (if Suc i \<le> k \<and> 0 < bytes \<and> k * bytes < length dec then add_bytes dec bytes k bytes 0 else ?ar' ! k)"
      by (rule 1(1)[OF True len])
    show ?thesis
    proof (cases "k = i")
      case True
      with ih step 1(2) \<open>0 < bytes \<and> i * bytes < length dec\<close> show ?thesis by simp
    next
      case False
      with ih step 1(2) show ?thesis by (auto simp: Suc_le_eq)
    qed
  next
    case False
    have "\<not> (i \<le> k \<and> 0 < bytes \<and> k * bytes < length dec)"
    proof
      assume a: "i \<le> k \<and> 0 < bytes \<and> k * bytes < length dec"
      then have "i * bytes \<le> k * bytes" by simp
      with a False show False by simp
    qed
    then have nc: "(if i \<le> k \<and> 0 < bytes \<and> k * bytes < length dec
                     then add_bytes dec bytes k bytes 0 else ar ! k) = ar ! k"
      by (rule if_not_P)
    from False have "fill_array dec bytes i ar = ar"
      by (subst fill_array.simps) (rule if_not_P)
    with nc show ?thesis by simp
  qed
qed
lemma add_bytes_Suc4:
  "add_bytes dec bytes k (Suc (Suc (Suc (Suc 0)))) w =
     w + 16777216 * charCodeAt dec (k * bytes + 3) + 65536 * charCodeAt dec (k * bytes + 2) +
     256 * charCodeAt dec (k * bytes + 1) + charCodeAt dec (k * bytes)"
  by (simp add: numeral_3_eq_3 numeral_2_eq_2)

lemma add_bytes_four:
  "add_bytes dec 4 k 4 0 =
     16777216 * charCodeAt dec (k * 4 + 3) + 65536 * charCodeAt dec (k * 4 + 2) +
     256 * charCodeAt dec (k * 4 + 1) + charCodeAt dec (k * 4)"
proof -
  have four: "(4::nat) = Suc (Suc (Suc (Suc 0)))" by simp
  have "add_bytes dec 4 k 4 0 = add_bytes dec 4 k (Suc (Suc (Suc (Suc 0)))) 0"
    by (subst four) (rule refl)
  then show ?thesis by (simp only: add_bytes_Suc4 add_0)
qed
lemma decodeBase64AsArray_words:
  assumes "atob (filter is_b64_char d) = Inr dec"
  shows "decodeBase64AsArray d 4 = Inr (map (\<lambda>k. add_bytes dec 4 k 4 0) [0..<length dec div 4])"
proof -
  have "fill_array dec 4 0 (replicate (length dec div 4) 0) =
          map (\<lambda>k. add_bytes dec 4 k 4 0) [0..<length dec div 4]"
  proof (rule nth_equalityI)
    show "length (fill_array dec 4 0 (replicate (length dec div 4) 0)) =
          length (map (\<lambda>k. add_bytes dec 4 k 4 0) [0..<length dec div 4])"
      by (simp add: fill_array_length)
  next
    fix k assume "k < length (fill_array dec 4 0 (replicate (length dec div 4) 0))"
    then have k: "k < length dec div 4" by (simp add: fill_array_length)
    then have "k * 4 < length dec" by arith
    with k show "fill_array dec 4 0 (replicate (length dec div 4) 0) ! k =
                 map (\<lambda>k. add_bytes dec 4 k 4 0) [0..<length dec div 4] ! k"
      by (simp add: fill_array_nth)
  qed
  with assms show ?thesis by (simp add: decodeBase64AsArray_def)
qed

lemma decodeBase64AsArray_example: "decodeBase64AsArray ''AQAAAAIAAAA='' 4 = Inr [1, 2]"
  by code_simp

text \<open>
  Claim C7. The compression that \<open>decode\<close> tests is its argument after
  \<^verbatim>\<open>compression || "none"\<close>, which makes an absent or empty compression the uncompressed
  case. Decoding a base64 payload whose compression is anything other than "none" raises an
  error and returns no data; with the compression "none" the result is the array of 32-bit
  words that \<open>decodeBase64AsArray\<close> makes of the payload (or the error of \<^verbatim>\<open>atob\<close> on a
  payload that is not base64).
\<close>

theorem decode_base64_compression:
  "(or_default compression ''none'' \<noteq> ''none'' \<longrightarrow>
      (\<exists>e. decode pf (Some d) (Some ''base64'') compression = Inl e)) \<and>
   (or_default compression ''none'' = ''none'' \<longrightarrow>
      decode pf (Some d) (Some ''base64'') compression =
        (case decodeBase64AsArray d 4 of Inl e \<Rightarrow> Inl e | Inr ws \<Rightarrow> Inr (Words ws))) \<and>
   decode pf (Some d) (Some ''base64'') compression =
     (case decodeBase64AsArray d 4 of
        Inl e \<Rightarrow> Inl e
      | Inr ws \<Rightarrow>
          (if or_default compression ''none'' = ''none''
           then Inr (Words ws)
           else Inl (Error ''GZIP/ZLIB compressed TMX Tile Map not supported!'')))"
  by (auto simp add: decode_def or_default_def decompress_def split: sum.splits option.splits)

theorem decode_base64_compression_witness:
  "or_default (Some ''gzip'') ''none'' \<noteq> ''none'' \<and>
   decode example_platform (Some ''AQAAAAIAAAA='') (Some ''base64'') (Some ''gzip'') =
     Inl (Error ''GZIP/ZLIB compressed TMX Tile Map not supported!'') \<and>
   or_default (Some ''none'') ''none'' = ''none'' \<and>
   decode example_platform (Some ''AQAAAAIAAAA='') (Some ''base64'') (Some ''none'') =
     Inr (Words [1, 2])"
proof -
  have g: "or_default (Some ''gzip'') ''none'' \<noteq> ''none''" by (simp add: or_default_def)
  have n: "or_default (Some ''none'') ''none'' = ''none''" by (simp add: or_default_def)
  note t1 = decode_base64_compression[of "Some ''gzip''" example_platform "''AQAAAAIAAAA=''"]
  note t2 = decode_base64_compression[of "Some ''none''" example_platform "''AQAAAAIAAAA=''"]
  from t1 g have a: "decode example_platform (Some ''AQAAAAIAAAA='') (Some ''base64'') (Some ''gzip'') =
     Inl (Error ''GZIP/ZLIB compressed TMX Tile Map not supported!'')"
    by (simp add: decodeBase64AsArray_example)
  from t2 n have b: "decode example_platform (Some ''AQAAAAIAAAA='') (Some ''base64'') (Some ''none'') =
     Inr (Words [1, 2])"
    by (simp add: decodeBase64AsArray_example)
  from g a n b show ?thesis by blast
qed

text \<open>A base64 layer without a compression attribute is the uncompressed case.\<close>

lemma decode_base64_absent_compression:
  "decode example_platform (Some ''AQAAAAIAAAA='') (Some ''base64'') None = Inr (Words [1, 2])"
  by (simp add: decode_def or_default_def decodeBase64AsArray_example)

subsection \<open>normalize, the case of a data node\<close>

text \<open>
  Claim C5. When the parsed record of a data node has both its chunks and its text defined,
  the chunks take precedence: the result is the object with the decoded chunks pushed on its
  \<open>chunks\<close> (or the error of decoding one of them), it is the same as if the text were
  absent, and \<open>obj.data\<close> is not set.
\<close>

theorem normalize_data_chunks_win:
  assumes "data_chunks parsed = Some chunks" and "data_text parsed = Some t"
  shows "normalize_data pf obj parsed =
           (case push_chunks pf (Some (or_default (data_encoding parsed) ''xml''))
                   (data_compression parsed) chunks
                   (case obj_chunks obj of None \<Rightarrow> [] | Some cs \<Rightarrow> cs) of
              Inl e \<Rightarrow> Inl e
            | Inr cs \<Rightarrow> Inr (obj\<lparr>obj_chunks := Some cs, obj_encoding := Some ''none''\<rparr>)) \<and>
         normalize_data pf obj parsed = normalize_data pf obj (parsed\<lparr>data_text := None\<rparr>) \<and>
         (\<forall>obj'. normalize_data pf obj parsed = Inr obj' \<longrightarrow>
                   obj_data obj' = obj_data obj \<and> obj_chunks obj' \<noteq> None)"
  using assms by (auto simp add: normalize_data_def Let_def split: sum.splits)

lemma push_chunks_example:
  "push_chunks example_platform (Some ''base64'') None [example_chunk] [] =
     Inr [\<lparr>lc_x = Num 0, lc_y = Num 0, lc_width = Num 2, lc_height = Num 1, lc_data = Words [1, 2]\<rparr>]"
proof -
  have d: "decode example_platform (Some ''AQAAAAIAAAA='') (Some ''base64'') None = Inr (Words [1, 2])"
    by (simp add: decode_def or_default_def decodeBase64AsArray_example)
  have n: "toNumber example_platform ''0'' = Num 0" "toNumber example_platform ''1'' = Num 1"
    "toNumber example_platform ''2'' = Num 2"
    by code_simp+
  show ?thesis
    by (simp add: example_chunk_def d n unary_plus_def)
qed

theorem normalize_data_chunks_win_witness:
  "data_chunks example_data = Some [example_chunk] \<and> data_text example_data = Some ''AQAAAAIAAAA='' \<and>
   normalize_data example_platform empty_layer example_data =
     Inr \<lparr>obj_chunks = Some [\<lparr>lc_x = Num 0, lc_y = Num 0, lc_width = Num 2, lc_height = Num 1,
                                lc_data = Words [1, 2]\<rparr>],
          obj_data = None, obj_encoding = Some ''none''\<rparr>"
proof -
  have h1: "data_chunks example_data = Some [example_chunk]" by (simp add: example_data_def)
  have h2: "data_text example_data = Some ''AQAAAAIAAAA=''" by (simp add: example_data_def)
  have e: "or_default (data_encoding example_data) ''xml'' = ''base64''"
    "data_compression example_data = None"
    by (simp_all add: example_data_def or_default_def)
  have o: "(case obj_chunks empty_layer of None \<Rightarrow> [] | Some cs \<Rightarrow> cs) = []"
    by (simp add: empty_layer_def)
  from conjunct1[OF normalize_data_chunks_win[OF h1 h2, of example_platform empty_layer]]
  have "normalize_data example_platform empty_layer example_data =
          Inr (empty_layer\<lparr>obj_chunks := Some [\<lparr>lc_x = Num 0, lc_y = Num 0, lc_width = Num 2,
                                                 lc_height = Num 1, lc_data = Words [1, 2]\<rparr>],
                           obj_encoding := Some ''none''\<rparr>)"
    by (simp only: e o push_chunks_example sum.case)
  then show ?thesis using h1 h2 by (simp add: empty_layer_def)
qed

section \<open>Properties of the Container\<close>

lemma single_owner_addChild: "single_owner w \<Longrightarrow> addChild w c child = Inr w' \<Longrightarrow> single_owner w'"
  by (auto simp: single_owner_def addChild_def split: if_splits) blast+

lemma single_owner_removeChildNow: "single_owner w \<Longrightarrow> single_owner (removeChildNow w c child k)"
  by (auto simp: single_owner_def removeChildNow_def split: if_splits)

lemma single_owner_removeChild: "single_owner w \<Longrightarrow> single_owner (removeChild w c child k)"
  by (simp add: single_owner_def removeChild_def)

lemma single_owner_fold_remove:
  "single_owner w \<Longrightarrow>
   single_owner (fold (\<lambda>(c, child, keepalive) w'. removeChildNow w' c child keepalive) ps w)"
  by (induction ps arbitrary: w) (auto simp: single_owner_removeChildNow)

lemma single_owner_end_of_pass: "single_owner w \<Longrightarrow> single_owner (end_of_pass w)"
  using single_owner_fold_remove[of w "pending w"]
  by (simp add: end_of_pass_def single_owner_def)

lemma single_owner_apply_op: "single_owner w \<Longrightarrow> single_owner (apply_op w op)"
  by (cases op)
     (auto simp: single_owner_removeChild single_owner_removeChildNow single_owner_end_of_pass
           dest: single_owner_addChild split: sum.splits)

lemma single_owner_empty: "single_owner empty_world"
  by (simp add: single_owner_def empty_world_def)

lemma addChild_transfers:
  "addChild w c child = Inr w' \<Longrightarrow>
   child \<in> set (children w' c) \<and> (\<forall>k. k \<noteq> c \<longrightarrow> child \<notin> set (children w' k))"
  by (auto simp: addChild_def split: if_splits)

lemma single_owner_run_aux: "single_owner w \<Longrightarrow> single_owner (run w ops)"
  unfolding run_def by (induction ops arbitrary: w) (simp_all add: single_owner_apply_op)

text \<open>
  Claim C2. Starting from a scene graph in which no Renderable is in the child sequences of
  two Containers, that remains so after every sequence of \<open>addChild\<close>, \<open>removeChild\<close>,
  \<open>removeChildNow\<close> and ends of pass; and an \<open>addChild\<close> that succeeds leaves the child
  in the sequence of its new Container and in no other.
\<close>

theorem single_owner_run:
  assumes "single_owner w"
  shows "single_owner (run w ops) \<and>
         (\<forall>c child w'. addChild (run w ops) c child = Inr w' \<longrightarrow>
            child \<in> set (children w' c) \<and> (\<forall>k. k \<noteq> c \<longrightarrow> child \<notin> set (children w' k)))"
  using assms by (simp add: single_owner_run_aux addChild_transfers)

theorem single_owner_run_witness:
  "single_owner empty_world \<and>
   single_owner (run empty_world [AddChild 1 5, AddChild 2 5, RemoveChild 2 5 False, EndOfPass])"
  using single_owner_run[OF single_owner_empty,
      of "[AddChild 1 5, AddChild 2 5, RemoveChild 2 5 False, EndOfPass]"] single_owner_empty
  by blast

lemma transfer_example:
  "children (run empty_world [AddChild 1 5, AddChild 2 5]) 1 = [] \<and>
   children (run empty_world [AddChild 1 5, AddChild 2 5]) 2 = [5]"
  by (simp add: run_def addChild_def empty_world_def)

end
